theory Spec2Isabelle
  imports Complex_Main "HOL-Library.Sublist"
begin

section \<open>Python values\<close>

text \<open>
  The values that reach the functions below come from decoded JSON. A string is a list of
  characters of type \<open>'c\<close>; a number (Python int or float) is given by its real value.
\<close>

datatype 'c pyval =
    PyNone
  | PyBool bool
  | PyNum real
  | PyStr "'c list"
  | PyList "'c pyval list"

datatype py_exn = ValueError | TypeError

text \<open>Python truthiness, as used by \<open>if x:\<close> and \<open>not x\<close>.\<close>

fun truthy :: "'c pyval \<Rightarrow> bool" where
  "truthy PyNone = False"
| "truthy (PyBool b) = b"
| "truthy (PyNum r) = (r \<noteq> 0)"
| "truthy (PyStr s) = (s \<noteq> [])"
| "truthy (PyList l) = (l \<noteq> [])"

fun isinstance_str :: "'c pyval \<Rightarrow> bool" where
  "isinstance_str (PyStr s) = True"
| "isinstance_str v = False"

text \<open>The numeric value of a Python number; \<open>bool\<close> is a subclass of \<open>int\<close>.\<close>

fun num_of :: "'c pyval \<Rightarrow> real option" where
  "num_of (PyNum r) = Some r"
| "num_of (PyBool b) = Some (if b then 1 else 0)"
| "num_of v = None"

text \<open>
  What \<open>float(s)\<close> can return for a string of digits and dots: a finite double, given by
  its value, or \<open>inf\<close> when the digits overflow. The comparisons of a number with it are
  exact, as Python's comparisons of an int or a float with a float are.
\<close>

datatype pyfloat = Finite real | Infinity

fun le_fl :: "real \<Rightarrow> pyfloat \<Rightarrow> bool" where
  "le_fl x (Finite r) = (x \<le> r)"
| "le_fl x Infinity = True"

fun ge_fl :: "real \<Rightarrow> pyfloat \<Rightarrow> bool" where
  "ge_fl x (Finite r) = (x \<ge> r)"
| "ge_fl x Infinity = False"

fun lt_fl :: "real \<Rightarrow> pyfloat \<Rightarrow> bool" where
  "lt_fl x (Finite r) = (x < r)"
| "lt_fl x Infinity = True"

fun gt_fl :: "real \<Rightarrow> pyfloat \<Rightarrow> bool" where
  "gt_fl x (Finite r) = (x > r)"
| "gt_fl x Infinity = False"

fun eq_fl :: "real \<Rightarrow> pyfloat \<Rightarrow> bool" where
  "eq_fl x (Finite r) = (x = r)"
| "eq_fl x Infinity = False"

text \<open>
  Ordering a value against a float raises TypeError unless the value is a number;
  \<open>==\<close> and \<open>!=\<close> never raise.
\<close>

definition py_order :: "(real \<Rightarrow> pyfloat \<Rightarrow> bool) \<Rightarrow> 'c pyval \<Rightarrow> pyfloat \<Rightarrow> py_exn + bool" where
  "py_order rel v t = (case num_of v of None \<Rightarrow> Inl TypeError | Some x \<Rightarrow> Inr (rel x t))"

definition py_eq :: "'c pyval \<Rightarrow> pyfloat \<Rightarrow> bool" where
  "py_eq v t = (case num_of v of None \<Rightarrow> False | Some x \<Rightarrow> eq_fl x t)"

section \<open>app.py: condition strings\<close>

text \<open>
  Condition strings are lists of \<open>char\<close>, read as the code points 0 to 255. The three
  character classes are those of Python's \<open>re\<close> on \<open>str\<close> patterns, restricted to that range.
\<close>

definition is_digit :: "char \<Rightarrow> bool" where
  "is_digit c = (let n = (of_char c :: nat) in 48 \<le> n \<and> n \<le> 57)"

definition is_word :: "char \<Rightarrow> bool" where
  "is_word c = (let n = (of_char c :: nat) in
     (48 \<le> n \<and> n \<le> 57) \<or> (65 \<le> n \<and> n \<le> 90) \<or> n = 95 \<or> (97 \<le> n \<and> n \<le> 122) \<or>
     n = 170 \<or> n = 178 \<or> n = 179 \<or> n = 181 \<or> n = 185 \<or> n = 186 \<or>
     (188 \<le> n \<and> n \<le> 190) \<or> (192 \<le> n \<and> n \<le> 214) \<or> (216 \<le> n \<and> n \<le> 246) \<or>
     (248 \<le> n \<and> n \<le> 255))"

definition is_space :: "char \<Rightarrow> bool" where
  "is_space c = (let n = (of_char c :: nat) in
     (9 \<le> n \<and> n \<le> 13) \<or> (28 \<le> n \<and> n \<le> 32) \<or> n = 133 \<or> n = 160)"

definition is_opch :: "char \<Rightarrow> bool" where
  "is_opch c = (c = CHR ''<'' \<or> c = CHR ''>'' \<or> c = CHR ''='' \<or> c = CHR ''!'')"

definition is_numch :: "char \<Rightarrow> bool" where
  "is_numch c = (is_digit c \<or> c = CHR ''.'')"

text \<open>Characters that can only stand in the identifier part of a condition.\<close>

definition letter :: "char \<Rightarrow> bool" where
  "letter c = (is_word c \<and> \<not> is_space c \<and> \<not> is_opch c \<and> \<not> is_numch c \<and> c \<noteq> CHR 0x0A)"

text \<open>
  \<open>str.replace(old, new)\<close>: every non-overlapping occurrence of \<open>old\<close>, scanning from the
  left, is replaced by \<open>new\<close>; an empty \<open>old\<close> inserts \<open>new\<close> around every character.
\<close>

function replace_str :: "'a list \<Rightarrow> 'a list \<Rightarrow> 'a list \<Rightarrow> 'a list" where
  "replace_str old new [] = (if old = [] then new else [])"
| "replace_str old new (c # cs) =
     (if old = [] then new @ concat (map (\<lambda>x. x # new) (c # cs))
      else if prefix old (c # cs) then new @ replace_str old new (drop (length old) (c # cs))
      else c # replace_str old new cs)"
  by pat_completeness auto
termination
  by (relation "measure (\<lambda>(old, new, s). length s)") (auto simp: neq_Nil_conv)

text \<open>The three chained \<open>replace\<close> calls of \<open>evaluate_sql_condition\<close>.\<close>

definition replace_fields :: "string \<Rightarrow> string" where
  "replace_fields s =
     replace_str ''size'' ''value'' (replace_str ''age'' ''value'' (replace_str ''price'' ''value'' s))"

text \<open>
  \<open>re.match(r'^\w+\s*([<>=!]+)\s*([\d\.]+)$', s)\<close>, returning groups 1 and 2. An operator
  character stands between the identifier and the number and belongs to neither class, and
  white space belongs to no other class, so the greedy split is the only possible match.
  \<open>$\<close> matches at the end of the string and also just before a final line feed.
\<close>

definition re_match :: "string \<Rightarrow> (string \<times> string) option" where
  "re_match s =
     (let ident = takeWhile is_word s;
          r1 = dropWhile is_space (dropWhile is_word s);
          operator = takeWhile is_opch r1;
          r2 = dropWhile is_space (dropWhile is_opch r1);
          number = takeWhile is_numch r2;
          r3 = dropWhile is_numch r2
      in if ident \<noteq> [] \<and> operator \<noteq> [] \<and> number \<noteq> [] \<and> (r3 = [] \<or> r3 = [CHR 0x0A])
         then Some (operator, number) else None)"

text \<open>
  Rounding to a double. \<open>float\<close> returns the double nearest to the decimal value of its
  argument, a tie going to the even significand. The value is the fraction \<open>n / d\<close> of two
  natural numbers, so the rounding is integer arithmetic: \<open>floor_log2\<close> is the exponent of
  the leading bit, \<open>q\<close> the exponent of the last of the 53 significand bits (not below
  -1074, where doubles are subnormal), and the significand is \<open>n / d / 2^q\<close> rounded to an
  integer. A result of \<open>2^1024\<close> or more is \<open>inf\<close>.
\<close>

fun bit_length :: "nat \<Rightarrow> nat" where
  "bit_length n = (if n = 0 then 0 else Suc (bit_length (n div 2)))"

declare bit_length.simps [simp del]

definition round_half_even :: "nat \<Rightarrow> nat \<Rightarrow> nat" where
  "round_half_even num den =
     (let k = num div den; r = num mod den
      in if 2 * r < den then k
         else if den < 2 * r then k + 1
         else if even k then k else k + 1)"

definition floor_log2 :: "nat \<Rightarrow> nat \<Rightarrow> int" where
  "floor_log2 n d =
     (let e0 = int (bit_length n) - int (bit_length d)
      in if (0 \<le> e0 \<and> d * 2 ^ nat e0 \<le> n) \<or> (e0 < 0 \<and> d \<le> n * 2 ^ nat (- e0))
         then e0 else e0 - 1)"

definition round_double :: "nat \<Rightarrow> nat \<Rightarrow> pyfloat" where
  "round_double n d =
     (if n = 0 then Finite 0
      else
        let e = floor_log2 n d;
            q = max (e - 52) (- 1074);
            v = (if 0 \<le> q then real (round_half_even n (d * 2 ^ nat q)) * 2 ^ nat q
                 else real (round_half_even (n * 2 ^ nat (- q)) d) / 2 ^ nat (- q))
        in if 2 ^ 1024 \<le> v then Infinity else Finite v)"

text \<open>
  \<open>float(s)\<close> for the strings group 2 can hold (digits and dots only): digits with at most
  one dot and at least one digit give the double nearest to their decimal value, anything
  else raises ValueError.
\<close>

fun digits_value :: "string \<Rightarrow> nat" where
  "digits_value [] = 0"
| "digits_value (c # cs) = (of_char c - 48) * 10 ^ length cs + digits_value cs"

definition float_str :: "string \<Rightarrow> py_exn + pyfloat" where
  "float_str s =
     (let ip = takeWhile is_digit s; rest = dropWhile is_digit s
      in case rest of
           [] \<Rightarrow> if ip = [] then Inl ValueError else Inr (round_double (digits_value ip) 1)
         | d # fp \<Rightarrow>
             if d = CHR ''.'' \<and> list_all is_digit fp \<and> (ip \<noteq> [] \<or> fp \<noteq> [])
             then Inr (round_double (digits_value ip * 10 ^ length fp + digits_value fp)
                         (10 ^ length fp))
             else Inl ValueError)"

text \<open>The body of the \<open>try\<close> block; \<open>Inl\<close> is a raised exception.\<close>

definition condition_body :: "char pyval \<Rightarrow> string \<Rightarrow> py_exn + bool" where
  "condition_body v s =
     (case re_match (replace_fields s) of
        None \<Rightarrow> Inr True
      | Some (operator, number) \<Rightarrow>
          (case float_str number of
             Inl e \<Rightarrow> Inl e
           | Inr condition_value \<Rightarrow>
               if operator = ''<='' then py_order le_fl v condition_value
               else if operator = ''>='' then py_order ge_fl v condition_value
               else if operator = ''<'' then py_order lt_fl v condition_value
               else if operator = ''>'' then py_order gt_fl v condition_value
               else if operator = ''='' then Inr (py_eq v condition_value)
               else if operator = ''!='' then Inr (\<not> py_eq v condition_value)
               else Inr True))"

definition evaluate_sql_condition :: "char pyval \<Rightarrow> char pyval \<Rightarrow> bool" where
  "evaluate_sql_condition v condition_str =
     (if \<not> truthy condition_str \<or> \<not> isinstance_str condition_str then True
      else case condition_str of
             PyStr s \<Rightarrow> (case condition_body v s of Inl e \<Rightarrow> True | Inr b \<Rightarrow> b)
           | _ \<Rightarrow> True)"

section \<open>app.py: great-circle distance\<close>

text \<open>
  \<open>haversine\<close> computes in doubles: every operation rounds its result, and \<open>radians\<close>,
  \<open>sin\<close>, \<open>cos\<close> and \<open>atan2\<close> are those of the C library. This arithmetic is a parameter
  of the model, a record of the ten operations \<open>haversine\<close> uses, on the values of the
  doubles (no operation overflows here: the inputs are degrees and every intermediate
  value is small).
\<close>

record machine =
  m_add :: "real \<Rightarrow> real \<Rightarrow> real"
  m_sub :: "real \<Rightarrow> real \<Rightarrow> real"
  m_mul :: "real \<Rightarrow> real \<Rightarrow> real"
  m_div :: "real \<Rightarrow> real \<Rightarrow> real"
  m_sqr :: "real \<Rightarrow> real"
  m_radians :: "real \<Rightarrow> real"
  m_sin :: "real \<Rightarrow> real"
  m_cos :: "real \<Rightarrow> real"
  m_sqrt :: "real \<Rightarrow> real"
  m_atan2 :: "real \<Rightarrow> real \<Rightarrow> real"

text \<open>\<open>math.sqrt\<close> raises ValueError (math domain error) on a negative argument.\<close>

definition py_sqrt :: "machine \<Rightarrow> real \<Rightarrow> py_exn + real" where
  "py_sqrt m x = (if x < 0 then Inl ValueError else Inr (m_sqrt m x))"

text \<open>The quantity \<open>a\<close> of \<open>haversine\<close>, and \<open>haversine\<close> itself, as the machine computes them.\<close>

definition hav_a :: "machine \<Rightarrow> real \<Rightarrow> real \<Rightarrow> real \<Rightarrow> real \<Rightarrow> real" where
  "hav_a m lat1 lon1 lat2 lon2 =
     (let lat1_rad = m_radians m lat1; lon1_rad = m_radians m lon1;
          lat2_rad = m_radians m lat2; lon2_rad = m_radians m lon2;
          dlon = m_sub m lon2_rad lon1_rad;
          dlat = m_sub m lat2_rad lat1_rad
      in m_add m (m_sqr m (m_sin m (m_div m dlat 2)))
           (m_mul m (m_mul m (m_cos m lat1_rad) (m_cos m lat2_rad))
              (m_sqr m (m_sin m (m_div m dlon 2)))))"

definition haversine :: "machine \<Rightarrow> real \<Rightarrow> real \<Rightarrow> real \<Rightarrow> real \<Rightarrow> py_exn + real" where
  "haversine m lat1 lon1 lat2 lon2 =
     (let R = 6371;
          a = hav_a m lat1 lon1 lat2 lon2
      in case py_sqrt m a of
           Inl e \<Rightarrow> Inl e
         | Inr s1 \<Rightarrow>
             (case py_sqrt m (m_sub m 1 a) of
                Inl e \<Rightarrow> Inl e
              | Inr s2 \<Rightarrow> Inr (m_mul m R (m_mul m 2 (m_atan2 m s1 s2)))))"

text \<open>
  The exact arithmetic of the reals: nothing rounds. \<open>math.atan2(y, x)\<close> is the angle of the
  point \<open>(x, y)\<close>, in \<open>(-pi, pi]\<close>.
\<close>

definition radians :: "real \<Rightarrow> real" where
  "radians x = x * pi / 180"

definition atan2 :: "real \<Rightarrow> real \<Rightarrow> real" where
  "atan2 y x =
     (if 0 < x then arctan (y / x)
      else if x < 0 then (if 0 \<le> y then arctan (y / x) + pi else arctan (y / x) - pi)
      else if 0 < y then pi / 2
      else if y < 0 then - (pi / 2)
      else 0)"

definition exact :: machine where
  "exact =
     \<lparr>m_add = (+), m_sub = (-), m_mul = (*), m_div = (/), m_sqr = (\<lambda>x. x\<^sup>2),
      m_radians = radians, m_sin = sin, m_cos = cos, m_sqrt = sqrt, m_atan2 = atan2\<rparr>"

text \<open>
  An arithmetic that rounds: every sum comes out too large by the relative error \<open>2^-53\<close>,
  the unit round-off of doubles. It shows the branch of \<open>haversine\<close> that raises.
\<close>

definition skewed :: machine where
  "skewed = exact\<lparr>m_add := \<lambda>x y. (x + y) * (1 + 1 / 2 ^ 53)\<rparr>"

section \<open>app.py: filtering listings\<close>

text \<open>
  A listing is one object of \<open>data.json\<close>; only the keys \<open>filter_houses\<close> reads are kept.
  \<open>label\<close> is optional in the data (\<open>h.get('label', [])\<close>).
\<close>

record listing =
  name :: string
  latitude :: real
  longitude :: real
  price :: real
  age :: real
  size_h :: real
  label :: "string list option"

text \<open>
  The criteria dictionary, with the value types the translator prompt asks for.
  \<open>None\<close> (or \<open>PyNone\<close>) is a key that is missing or null: \<open>criteria.get\<close> gives None for both.
\<close>

record criteria =
  location :: "(real \<times> real) option"
  distance :: "real option"
  price_c :: "char pyval"
  age_c :: "char pyval"
  size_c :: "char pyval"
  labels_to_exclude :: "string list option"
  labels_to_include :: "string list option"

definition get_label :: "listing \<Rightarrow> string list" where
  "get_label h = (case label h of None \<Rightarrow> [] | Some l \<Rightarrow> l)"

text \<open>
  A list comprehension whose condition can raise: the elements are tested in order, and
  the first exception ends the comprehension.
\<close>

fun filter_raise :: "('a \<Rightarrow> py_exn + bool) \<Rightarrow> 'a list \<Rightarrow> py_exn + 'a list" where
  "filter_raise p [] = Inr []"
| "filter_raise p (x # xs) =
     (case p x of
        Inl e \<Rightarrow> Inl e
      | Inr b \<Rightarrow>
          (case filter_raise p xs of
             Inl e \<Rightarrow> Inl e
           | Inr ys \<Rightarrow> Inr (if b then x # ys else ys)))"

text \<open>The condition of the comprehension of stage 1.\<close>

definition in_radius :: "machine \<Rightarrow> real \<Rightarrow> real \<Rightarrow> real \<Rightarrow> listing \<Rightarrow> py_exn + bool" where
  "in_radius m center_lat center_lon max_dist h =
     (case haversine m center_lat center_lon (latitude h) (longitude h) of
        Inl e \<Rightarrow> Inl e
      | Inr d \<Rightarrow> Inr (d \<le> max_dist))"

text \<open>
  Stage 1. \<open>if criteria.get('location') and criteria.get('distance')\<close> tests truthiness:
  a pair is always true, a number is true when it is not zero. \<open>haversine\<close> is called
  outside any \<open>try\<close>, so its exception leaves \<open>filter_houses\<close>.
\<close>

definition stage_geo :: "machine \<Rightarrow> criteria \<Rightarrow> listing list \<Rightarrow> py_exn + listing list" where
  "stage_geo m c filtered =
     (case location c of
        None \<Rightarrow> Inr filtered
      | Some (center_lat, center_lon) \<Rightarrow>
          (case distance c of
             None \<Rightarrow> Inr filtered
           | Some max_dist \<Rightarrow>
               if max_dist \<noteq> 0
               then filter_raise (in_radius m center_lat center_lon max_dist) filtered
               else Inr filtered))"

text \<open>Stage 2: price, age and size conditions.\<close>

definition stage_cond :: "(listing \<Rightarrow> real) \<Rightarrow> char pyval \<Rightarrow> listing list \<Rightarrow> listing list" where
  "stage_cond field cond filtered =
     (if truthy cond then [h \<leftarrow> filtered. evaluate_sql_condition (PyNum (field h)) cond]
      else filtered)"

text \<open>Stage 3: labels. A list is true when it is not empty.\<close>

definition stage_exclude :: "criteria \<Rightarrow> listing list \<Rightarrow> listing list" where
  "stage_exclude c filtered =
     (case labels_to_exclude c of
        None \<Rightarrow> filtered
      | Some ex \<Rightarrow>
          if ex \<noteq> [] then [h \<leftarrow> filtered. set ex \<inter> set (get_label h) = {}] else filtered)"

definition stage_include :: "criteria \<Rightarrow> listing list \<Rightarrow> listing list" where
  "stage_include c filtered =
     (case labels_to_include c of
        None \<Rightarrow> filtered
      | Some inc \<Rightarrow>
          if inc \<noteq> [] then [h \<leftarrow> filtered. set inc \<subseteq> set (get_label h)] else filtered)"

text \<open>The stages after the first, which do not raise.\<close>

definition later_stages :: "criteria \<Rightarrow> listing list \<Rightarrow> listing list" where
  "later_stages c filtered =
     stage_include c (stage_exclude c
       (stage_cond size_h (size_c c) (stage_cond age (age_c c) (stage_cond price (price_c c)
         filtered))))"

text \<open>\<open>filter_houses\<close>; the global \<open>house_data\<close> is the second argument.\<close>

definition filter_houses :: "machine \<Rightarrow> listing list \<Rightarrow> criteria \<Rightarrow> py_exn + listing list" where
  "filter_houses m house_data c =
     (if house_data = [] then Inr []
      else case stage_geo m c house_data of
             Inl e \<Rightarrow> Inl e
           | Inr filtered \<Rightarrow> Inr (take 10 (later_stages c filtered)))"

text \<open>A listing passes the criteria when the stages, run on it alone, keep it.\<close>

definition passes :: "machine \<Rightarrow> criteria \<Rightarrow> listing \<Rightarrow> bool" where
  "passes m c h =
     (case stage_geo m c [h] of
        Inl e \<Rightarrow> False
      | Inr filtered \<Rightarrow> later_stages c filtered = [h])"

text \<open>Sample listings and criteria for the concrete cases below.\<close>

definition listing_at :: "real \<Rightarrow> real \<Rightarrow> string list option \<Rightarrow> listing" where
  "listing_at lat lon lbl =
     \<lparr>name = ''A'', latitude = lat, longitude = lon, price = 20000000, age = 5, size_h = 30,
      label = lbl\<rparr>"

definition no_criteria :: criteria where
  "no_criteria =
     \<lparr>location = None, distance = None, price_c = PyNone, age_c = PyNone, size_c = PyNone,
      labels_to_exclude = None, labels_to_include = None\<rparr>"

definition zero_radius :: criteria where
  "zero_radius = no_criteria\<lparr>location := Some (0, 0), distance := Some 0\<rparr>"

section \<open>rate\_house.py: amenity classification and scoring\<close>

text \<open>
  Tag values hold Chinese text, so strings here are lists of Unicode code points.
  Tag keys and category names are ASCII.
\<close>

type_synonym ustr = "nat list"

definition ascii :: "string \<Rightarrow> ustr" where
  "ascii s = map of_char s"

text \<open>The marker strings of lines 48 to 54 of the source, by code point.\<close>

definition mrt_marker :: ustr where
  "mrt_marker = [0x6377, 0x904B]"

definition tra_marker_long :: ustr where
  "tra_marker_long = [0x81FA, 0x7063, 0x9435, 0x8DEF]"

definition tra_marker_short :: ustr where
  "tra_marker_short = [0x53F0, 0x9435]"

definition hsr_marker_long :: ustr where
  "hsr_marker_long = [0x53F0, 0x7063, 0x9AD8, 0x901F, 0x9435, 0x8DEF]"

definition hsr_marker_short :: ustr where
  "hsr_marker_short = [0x9AD8, 0x9435]"

text \<open>\<open>sub in s\<close> on strings: \<open>sub\<close> occurs in \<open>s\<close> as a contiguous run.\<close>

fun contains :: "'a list \<Rightarrow> 'a list \<Rightarrow> bool" where
  "contains sub [] = (sub = [])"
| "contains sub (c # cs) = (prefix sub (c # cs) \<or> contains sub cs)"

type_synonym tags = "string \<rightharpoonup> ustr"

definition get_or_empty :: "tags \<Rightarrow> string \<Rightarrow> ustr" where
  "get_or_empty t k = (case t k of None \<Rightarrow> [] | Some v \<Rightarrow> v)"

text \<open>\<open>x or y\<close> on the results of \<open>tags.get\<close>: None and the empty string are false.\<close>

definition py_or :: "ustr option \<Rightarrow> ustr option \<Rightarrow> ustr option" where
  "py_or x y = (case x of Some (a # as) \<Rightarrow> x | _ \<Rightarrow> y)"

text \<open>
  One pass of the loop body of \<open>find_nearby_amenities_with_counts\<close>: it takes the list
  \<open>all_found_tags\<close> built so far and returns it after the element's appends.
\<close>

definition loop_body :: "tags \<Rightarrow> ustr list \<Rightarrow> ustr list" where
  "loop_body t all_found_tags =
     (let network = get_or_empty t ''network'';
          operator = get_or_empty t ''operator'';
          (found, is_station) =
            (if contains mrt_marker network \<or> contains mrt_marker operator
             then (all_found_tags @ [ascii ''mrt_station''], True)
             else if contains tra_marker_long network \<or> contains tra_marker_short network \<or>
                     contains tra_marker_long operator \<or> contains tra_marker_short operator
             then (all_found_tags @ [ascii ''tra_station''], True)
             else if contains hsr_marker_long operator \<or> contains hsr_marker_short operator \<or>
                     contains hsr_marker_long network \<or> contains hsr_marker_short network
             then (all_found_tags @ [ascii ''hsr_station''], True)
             else (all_found_tags, False))
      in if \<not> is_station
         then (case py_or (t ''amenity'') (py_or (t ''shop'') (py_or (t ''leisure'') (t ''highway''))) of
                 Some (a # as) \<Rightarrow> found @ [a # as]
               | _ \<Rightarrow> found)
         else found)"

text \<open>The loop over the elements; an element without \<open>tags\<close> has the empty tag set.\<close>

definition element_tags :: "tags option \<Rightarrow> tags" where
  "element_tags e = (case e of None \<Rightarrow> Map.empty | Some t \<Rightarrow> t)"

definition all_found :: "tags option list \<Rightarrow> ustr list" where
  "all_found elements = foldl (\<lambda>acc e. loop_body (element_tags e) acc) [] elements"

text \<open>\<open>Counter(xs)\<close>: each label that occurs, with its number of occurrences.\<close>

definition counter :: "ustr list \<Rightarrow> (ustr \<rightharpoonup> int)" where
  "counter xs = (\<lambda>k. if k \<in> set xs then Some (int (count_list xs k)) else None)"

definition counts_get :: "(ustr \<rightharpoonup> int) \<Rightarrow> ustr \<Rightarrow> int" where
  "counts_get counts k = (case counts k of None \<Rightarrow> 0 | Some n \<Rightarrow> n)"

text \<open>\<open>str(n)\<close> for an integer.\<close>

fun str_nat :: "nat \<Rightarrow> ustr" where
  "str_nat n = (if n < 10 then [48 + n] else str_nat (n div 10) @ [48 + n mod 10])"

declare str_nat.simps [simp del]

definition str_int :: "int \<Rightarrow> ustr" where
  "str_int i = (if i < 0 then 45 # str_nat (nat (- i)) else str_nat (nat i))"

text \<open>The label of the returned text, by code point, ending in a colon and a space.\<close>

definition score_label :: ustr where
  "score_label = [0x7D9C, 0x5408, 0x8A55, 0x5206, 0x3A, 0x20]"

text \<open>
  The score after the three \<open>if\<close> statements of \<open>check_living_function_updated\<close>,
  and the function itself, which returns the f-string. The printed lines are not modelled.
\<close>

definition living_score :: "(ustr \<rightharpoonup> int) \<Rightarrow> int" where
  "living_score counts =
     (let score = 0;
          score = (if counts_get counts (ascii ''mrt_station'') > 0 then score + 1 else score);
          score = (if counts_get counts (ascii ''tra_station'') > 0 then score + 1 else score);
          score = (if counts_get counts (ascii ''hsr_station'') > 0 then score + 1 else score)
      in score)"

definition check_living_function_updated :: "(ustr \<rightharpoonup> int) \<Rightarrow> nat pyval" where
  "check_living_function_updated counts = PyStr (score_label @ str_int (living_score counts))"

text \<open>The counts of the scoring scenario: two metro stations, no other station.\<close>

definition counts_example :: "ustr \<rightharpoonup> int" where
  "counts_example =
     [ascii ''mrt_station'' \<mapsto> 2, ascii ''tra_station'' \<mapsto> 0, ascii ''hsr_station'' \<mapsto> 0]"

section \<open>The specification's wording of the two rate\_house.py components\<close>

text \<open>
  AmenityClassifier as the specification words it: first match wins over the three transit
  categories, then the first non-empty value among amenity, shop, leisure, highway.
\<close>

definition has_marker :: "ustr list \<Rightarrow> tags \<Rightarrow> bool" where
  "has_marker ms t =
     (\<exists>m \<in> set ms. contains m (get_or_empty t ''network'') \<or> contains m (get_or_empty t ''operator''))"

definition first_nonempty :: "tags \<Rightarrow> string list \<Rightarrow> ustr option" where
  "first_nonempty t ks = List.find (\<lambda>v. v \<noteq> []) (map (get_or_empty t) ks)"

definition spec_classify :: "tags \<Rightarrow> ustr option" where
  "spec_classify t =
     (if has_marker [mrt_marker] t then Some (ascii ''mrt_station'')
      else if has_marker [tra_marker_long, tra_marker_short] t then Some (ascii ''tra_station'')
      else if has_marker [hsr_marker_long, hsr_marker_short] t then Some (ascii ''hsr_station'')
      else first_nonempty t [''amenity'', ''shop'', ''leisure'', ''highway''])"

text \<open>The rule table of AmenityScorer as the specification words it: three independent rules.\<close>

definition spec_rule :: "(ustr \<rightharpoonup> int) \<Rightarrow> string \<Rightarrow> int" where
  "spec_rule counts k = (if counts_get counts (ascii k) > 0 then 1 else 0)"

definition spec_score :: "(ustr \<rightharpoonup> int) \<Rightarrow> int" where
  "spec_score counts =
     spec_rule counts ''mrt_station'' + spec_rule counts ''tra_station'' + spec_rule counts ''hsr_station''"

text \<open>Zero or one label, as the list the loop body appends.\<close>

definition emit :: "ustr option \<Rightarrow> ustr list" where
  "emit r = (case r of None \<Rightarrow> [] | Some c \<Rightarrow> [c])"

section \<open>Properties of condition strings\<close>

subsection \<open>Replacement does not change what the pattern matches\<close>

lemma replace_str_Nil [simp]: "old \<noteq> [] \<Longrightarrow> replace_str old new [] = []"
  by simp

lemma replace_str_hit:
  "old \<noteq> [] \<Longrightarrow> replace_str old new (old @ s) = new @ replace_str old new s"
  by (cases old) simp_all

lemma replace_str_miss:
  "old \<noteq> [] \<Longrightarrow> \<not> prefix old (c # cs) \<Longrightarrow>
   replace_str old new (c # cs) = c # replace_str old new cs"
  by simp

text \<open>A class that none of the replaced or inserted characters belongs to.\<close>

lemma replace_str_other:
  assumes "old \<noteq> []" "new \<noteq> []" "\<forall>c\<in>set old. \<not> P c" "\<forall>c\<in>set new. \<not> P c"
  shows "takeWhile P (replace_str old new s) = takeWhile P s \<and>
         dropWhile P (replace_str old new s) = replace_str old new (dropWhile P s)"
proof (induction s)
  case Nil
  then show ?case using assms by simp
next
  case (Cons c cs)
  show ?case
  proof (cases "prefix old (c # cs)")
    case True
    then have "c = hd old" using assms(1) by (cases old) auto
    then have nc: "\<not> P c" using assms(1,3) by (cases old) auto
    have nn: "\<not> P (hd new)" using assms(2,4) by (cases new) auto
    have "replace_str old new (c # cs) = new @ replace_str old new (drop (length old) (c # cs))"
      using True assms(1) by simp
    moreover have "takeWhile P (new @ t) = []" "dropWhile P (new @ t) = new @ t" for t
      using nn assms(2) by (cases new; simp)+
    ultimately show ?thesis using nc by simp
  next
    case False
    then show ?thesis using Cons assms(1) by simp
  qed
qed

text \<open>A class that all of the replaced and inserted characters belong to.\<close>

lemma replace_str_same:
  assumes "old \<noteq> []" "\<forall>c\<in>set old. P c" "\<forall>c\<in>set new. P c"
  shows "takeWhile P (replace_str old new s) = replace_str old new (takeWhile P s) \<and>
         dropWhile P (replace_str old new s) = replace_str old new (dropWhile P s)"
proof (induction "length s" arbitrary: s rule: less_induct)
  case less
  show ?case
  proof (cases s)
    case Nil
    then show ?thesis using assms(1) by simp
  next
    case (Cons c cs)
    show ?thesis
    proof (cases "prefix old s")
      case True
      then obtain s' where s: "s = old @ s'" by (auto simp: prefix_def)
      have "length s' < length s" using s assms(1) by simp
      then have IH: "takeWhile P (replace_str old new s') = replace_str old new (takeWhile P s')"
        "dropWhile P (replace_str old new s') = replace_str old new (dropWhile P s')"
        using less by blast+
      have "takeWhile P s = old @ takeWhile P s'" "dropWhile P s = dropWhile P s'"
        using s assms(2) by (simp_all add: takeWhile_append2 dropWhile_append2)
      moreover have "takeWhile P (new @ t) = new @ takeWhile P t"
        "dropWhile P (new @ t) = dropWhile P t" for t
        using assms(3) by (simp_all add: takeWhile_append2 dropWhile_append2)
      ultimately show ?thesis
        using s IH replace_str_hit [OF assms(1)] by simp
    next
      case False
      have "length cs < length s" using Cons by simp
      then have IH: "takeWhile P (replace_str old new cs) = replace_str old new (takeWhile P cs)"
        "dropWhile P (replace_str old new cs) = replace_str old new (dropWhile P cs)"
        using less by blast+
      have miss: "replace_str old new s = c # replace_str old new cs"
        using False Cons assms(1) by simp
      show ?thesis
      proof (cases "P c")
        case True
        have "\<not> prefix old (c # takeWhile P cs)"
        proof
          assume "prefix old (c # takeWhile P cs)"
          moreover have "prefix (c # takeWhile P cs) (c # cs)"
            by (simp add: takeWhile_is_prefix)
          ultimately have "prefix old (c # cs)" by (rule prefix_order.trans)
          then show False using False Cons by simp
        qed
        then have "replace_str old new (c # takeWhile P cs) = c # replace_str old new (takeWhile P cs)"
          using assms(1) by simp
        then show ?thesis using True miss Cons IH by simp
      next
        case nP: False
        then show ?thesis using miss Cons assms(1) by simp
      qed
    qed
  qed
qed

lemma replace_str_eq_Nil:
  assumes "old \<noteq> []" "new \<noteq> []"
  shows "replace_str old new s = [] \<longleftrightarrow> s = []"
  using assms by (cases s) auto

lemma replace_str_eq_single:
  assumes "old \<noteq> []" "new \<noteq> []" "x \<notin> set new" "x \<notin> set old"
  shows "replace_str old new s = [x] \<longleftrightarrow> s = [x]"
proof (cases s)
  case Nil
  then show ?thesis using assms by simp
next
  case (Cons c cs)
  show ?thesis
  proof (cases "prefix old (c # cs)")
    case True
    have "hd new \<noteq> x" using assms(2,3) by (cases new) auto
    then have "new @ t \<noteq> [x]" for t using assms(2) by (cases new) auto
    moreover have "c = hd old" using True assms(1) by (cases old) auto
    then have "c \<noteq> x" using assms(1,4) by (cases old) auto
    ultimately show ?thesis using True Cons assms(1) by simp
  next
    case False
    then show ?thesis using Cons assms(1,2) by (auto simp: replace_str_eq_Nil)
  qed
qed

lemma re_match_replace_str:
  assumes "old \<noteq> []" "new \<noteq> []" "\<forall>c\<in>set old. letter c" "\<forall>c\<in>set new. letter c"
  shows "re_match (replace_str old new s) = re_match s"
proof -
  note W = replace_str_same [OF assms(1), of is_word new]
  have sp: "\<forall>c\<in>set old. \<not> is_space c" "\<forall>c\<in>set new. \<not> is_space c"
   and op: "\<forall>c\<in>set old. \<not> is_opch c" "\<forall>c\<in>set new. \<not> is_opch c"
   and nu: "\<forall>c\<in>set old. \<not> is_numch c" "\<forall>c\<in>set new. \<not> is_numch c"
   and wd: "\<forall>c\<in>set old. is_word c" "\<forall>c\<in>set new. is_word c"
   and nl: "CHR 0x0A \<notin> set old" "CHR 0x0A \<notin> set new"
    using assms(3,4) by (auto simp: letter_def)
  note W = replace_str_same [OF assms(1) wd]
  note S = replace_str_other [OF assms(1,2) sp]
  note O = replace_str_other [OF assms(1,2) op]
  note N = replace_str_other [OF assms(1,2) nu]
  note E = replace_str_eq_Nil [OF assms(1,2)]
  note L = replace_str_eq_single [OF assms(1,2) nl(2) nl(1)]
  show ?thesis
    unfolding re_match_def Let_def
    by (simp only: W S O N E L)
qed

lemma re_match_replace_fields: "re_match (replace_fields s) = re_match s"
  unfolding replace_fields_def
  by (simp add: re_match_replace_str letter_def is_word_def is_space_def is_opch_def is_numch_def is_digit_def)

subsection \<open>The greedy split is the match of the regular expression\<close>

text \<open>
  \<open>re_match\<close> succeeds with groups \<open>(operator, number)\<close> exactly when the string splits,
  in any way at all, into identifier, white space, operator, white space, number and an
  optional final line feed.
\<close>

lemma run_then_other:
  assumes "list_all P a" "b = [] \<or> \<not> P (hd b)"
  shows "takeWhile P (a @ b) = a \<and> dropWhile P (a @ b) = b"
proof -
  have "takeWhile P b = []" "dropWhile P b = b"
    using assms(2) by (cases b; auto)+
  then show ?thesis
    using assms(1) by (simp add: list_all_iff takeWhile_append2 dropWhile_append2)
qed

lemma hd_class:
  assumes "list_all P a" "a \<noteq> []"
  shows "P (hd (a @ b))"
  using assms by (cases a) auto

lemma re_match_iff:
  "re_match s = Some (operator, number) \<longleftrightarrow>
   (\<exists>ident sp1 sp2 nl.
      s = ident @ sp1 @ operator @ sp2 @ number @ nl \<and>
      ident \<noteq> [] \<and> list_all is_word ident \<and> list_all is_space sp1 \<and>
      operator \<noteq> [] \<and> list_all is_opch operator \<and> list_all is_space sp2 \<and>
      number \<noteq> [] \<and> list_all is_numch number \<and> (nl = [] \<or> nl = [CHR 0x0A]))"
  (is "?L \<longleftrightarrow> ?R")
proof
  assume ?L
  define ident where "ident = takeWhile is_word s"
  define sp1 where "sp1 = takeWhile is_space (dropWhile is_word s)"
  define r1 where "r1 = dropWhile is_space (dropWhile is_word s)"
  define sp2 where "sp2 = takeWhile is_space (dropWhile is_opch r1)"
  define r2 where "r2 = dropWhile is_space (dropWhile is_opch r1)"
  define nl where "nl = dropWhile is_numch r2"
  have m: "ident \<noteq> []" "operator = takeWhile is_opch r1" "operator \<noteq> []"
    "number = takeWhile is_numch r2" "number \<noteq> []" "nl = [] \<or> nl = [CHR 0x0A]"
    using \<open>?L\<close> unfolding re_match_def Let_def ident_def r1_def r2_def nl_def
    by (auto split: if_splits)
  have "s = ident @ dropWhile is_word s" by (simp add: ident_def)
  also have "dropWhile is_word s = sp1 @ r1" by (simp add: sp1_def r1_def)
  also have "r1 = operator @ dropWhile is_opch r1" by (simp add: m(2))
  also have "dropWhile is_opch r1 = sp2 @ r2" by (simp add: sp2_def r2_def)
  also have "r2 = number @ nl" by (simp add: m(4) nl_def)
  finally have "s = ident @ sp1 @ operator @ sp2 @ number @ nl" .
  moreover have "list_all is_word ident" "list_all is_space sp1" "list_all is_opch operator"
    "list_all is_space sp2" "list_all is_numch number"
    unfolding ident_def sp1_def sp2_def m(2,4) list_all_iff
    by (auto dest: set_takeWhileD)
  ultimately show ?R using m(1,3,5,6) by blast
next
  assume ?R
  then obtain ident sp1 sp2 nl where s: "s = ident @ sp1 @ operator @ sp2 @ number @ nl"
    and c: "ident \<noteq> []" "list_all is_word ident" "list_all is_space sp1"
      "operator \<noteq> []" "list_all is_opch operator" "list_all is_space sp2"
      "number \<noteq> []" "list_all is_numch number" "nl = [] \<or> nl = [CHR 0x0A]"
    by blast
  have op_hd: "is_opch (hd (operator @ t))" for t
    using hd_class [OF c(5,4)] .
  have nu_hd: "is_numch (hd (number @ t))" for t
    using hd_class [OF c(8,7)] .
  have a1: "\<not> is_word (hd (sp1 @ operator @ t))" for t
  proof (cases sp1)
    case Nil
    then show ?thesis using op_hd [of t] by (auto simp: is_opch_def is_word_def)
  next
    case (Cons x xs)
    then have "is_space x" using c(3) by simp
    then show ?thesis using Cons by (auto simp: is_space_def is_word_def Let_def)
  qed
  have a2: "\<not> is_space (hd (operator @ t))" for t
    using op_hd [of t] by (auto simp: is_opch_def is_space_def)
  have a3: "\<not> is_opch (hd (sp2 @ number @ t))" for t
  proof (cases sp2)
    case Nil
    then show ?thesis using nu_hd [of t]
      by (auto simp: is_opch_def is_numch_def is_digit_def Let_def)
  next
    case (Cons x xs)
    then have "is_space x" using c(6) by simp
    then show ?thesis using Cons by (auto simp: is_space_def is_opch_def Let_def)
  qed
  have a4: "\<not> is_space (hd (number @ t))" for t
    using nu_hd [of t] by (auto simp: is_numch_def is_digit_def is_space_def Let_def)
  have a5: "nl = [] \<or> \<not> is_numch (hd nl)"
    using c(9) by (auto simp: is_numch_def is_digit_def)
  note w = run_then_other [OF c(2), of "sp1 @ operator @ sp2 @ number @ nl"]
  note s1 = run_then_other [OF c(3), of "operator @ sp2 @ number @ nl"]
  note o = run_then_other [OF c(5), of "sp2 @ number @ nl"]
  note s2 = run_then_other [OF c(6), of "number @ nl"]
  note n = run_then_other [OF c(8), of nl]
  show ?L
    unfolding re_match_def Let_def s
    using c(1,4,7,9) w s1 o s2 n a1 a2 a3 a4 a5 by simp
qed

subsection \<open>Evaluation of conditions\<close>

lemmas class_defs = is_word_def is_space_def is_opch_def is_numch_def is_digit_def

lemma condition_body_re_match:
  "condition_body v s =
     (case re_match s of
        None \<Rightarrow> Inr True
      | Some (operator, number) \<Rightarrow>
          (case float_str number of
             Inl e \<Rightarrow> Inl e
           | Inr t \<Rightarrow>
               if operator = ''<='' then py_order le_fl v t
               else if operator = ''>='' then py_order ge_fl v t
               else if operator = ''<'' then py_order lt_fl v t
               else if operator = ''>'' then py_order gt_fl v t
               else if operator = ''='' then Inr (py_eq v t)
               else if operator = ''!='' then Inr (\<not> py_eq v t)
               else Inr True))"
  unfolding condition_body_def re_match_replace_fields ..

lemma evaluate_str:
  "evaluate_sql_condition v (PyStr s) =
     (s = [] \<or> (case condition_body v s of Inl e \<Rightarrow> True | Inr b \<Rightarrow> b))"
  by (simp add: evaluate_sql_condition_def)

lemma evaluate_not_str: "\<not> isinstance_str c \<Longrightarrow> evaluate_sql_condition v c"
  by (simp add: evaluate_sql_condition_def)

lemma re_match_tilde: "re_match ''price ~~ 100'' = None"
  by (simp add: re_match_def class_defs)

text \<open>
  Claim C4. A condition that is None, the empty string, not a string, or a string the
  pattern does not match, makes \<open>evaluate_sql_condition\<close> return True for every value;
  so does every exception raised inside the \<open>try\<close> block (a threshold \<open>float\<close> rejects,
  an ordering of a value that is not a number). The function is total: nothing propagates.
  The malformed operator of \<open>price ~~ 100\<close> is one such string. Whether the pattern
  matches is decided on the string as given: the three \<open>replace\<close> calls do not change it
  (lemma \<open>re_match_replace_fields\<close>).
\<close>

theorem evaluate_sql_condition_permissive:
  "evaluate_sql_condition v PyNone \<and>
   evaluate_sql_condition v (PyStr []) \<and>
   (\<not> isinstance_str c \<longrightarrow> evaluate_sql_condition v c) \<and>
   (re_match s = None \<longrightarrow> evaluate_sql_condition v (PyStr s)) \<and>
   (condition_body v s = Inl e \<longrightarrow> evaluate_sql_condition v (PyStr s)) \<and>
   evaluate_sql_condition v (PyStr ''price ~~ 100'')"
proof -
  have "evaluate_sql_condition v (PyStr s)" if "re_match s = None" for s
    using that by (simp add: evaluate_str condition_body_re_match)
  moreover from this have "evaluate_sql_condition v (PyStr ''price ~~ 100'')"
    using re_match_tilde by blast
  moreover have "evaluate_sql_condition v (PyStr s)" if "condition_body v s = Inl e"
    using that by (simp add: evaluate_str)
  ultimately show ?thesis
    by (simp add: evaluate_not_str evaluate_str)
qed

lemma body_value_error: "condition_body (PyNum 1) ''price <= 1.2.3'' = Inl ValueError"
  by (simp add: condition_body_def replace_fields_def re_match_def class_defs float_str_def)

theorem evaluate_sql_condition_permissive_witness:
  "\<not> isinstance_str (PyNum 5 :: char pyval) \<and>
   re_match ''price ~~ 100'' = None \<and>
   condition_body (PyNum 1) ''price <= 1.2.3'' = Inl ValueError \<and>
   evaluate_sql_condition (PyNum 1) (PyNum 5) \<and>
   evaluate_sql_condition (PyNum 1) (PyStr ''price ~~ 100'') \<and>
   evaluate_sql_condition (PyNum 1) (PyStr ''price <= 1.2.3'')"
  using evaluate_sql_condition_permissive [of "PyNum 1" "PyNum 5" "''price ~~ 100''" ValueError]
    evaluate_sql_condition_permissive [of "PyNum 1" "PyNum 5" "''price <= 1.2.3''" ValueError]
    re_match_tilde body_value_error
  by simp

lemma evaluate_num:
  assumes "re_match s = Some (op, n)" "float_str n = Inr t"
  shows "evaluate_sql_condition (PyNum x) (PyStr s) =
     (if op = ''<='' then le_fl x t else if op = ''>='' then ge_fl x t
      else if op = ''<'' then lt_fl x t else if op = ''>'' then gt_fl x t
      else if op = ''='' then eq_fl x t else if op = ''!='' then \<not> eq_fl x t else True)"
proof -
  have "s \<noteq> []" using assms(1) by (auto simp: re_match_def)
  then show ?thesis
    using assms by (simp add: evaluate_str condition_body_re_match py_order_def py_eq_def)
qed

lemma re_match_price_le_100: "re_match ''price <= 100'' = Some (''<='', ''100'')"
  by (simp add: re_match_def class_defs)

text \<open>Rounding: evaluation on numerals, and overflow to \<open>inf\<close>.\<close>

lemma bit_length_numeral:
  "bit_length 0 = 0"
  "bit_length (Suc 0) = 1"
  "bit_length 1 = 1"
  "bit_length (numeral (Num.Bit0 k)) = 1 + bit_length (numeral k)"
  "bit_length (numeral (Num.Bit1 k)) = 1 + bit_length (numeral k)"
  "bit_length (numeral Num.One) = 1"
  by (subst bit_length.simps, simp add: bit_length.simps [of 0])+

lemmas round_defs = round_double_def floor_log2_def round_half_even_def bit_length_numeral Let_def

lemma bit_length_bounds:
  "0 < n \<Longrightarrow> 2 ^ (bit_length n - 1) \<le> n \<and> n < 2 ^ bit_length n"
proof (induction n rule: bit_length.induct)
  case (1 n)
  have bl: "bit_length n = Suc (bit_length (n div 2))"
    using "1.prems" by (subst bit_length.simps) simp
  show ?case
  proof (cases "n div 2 = 0")
    case True
    then have "n = 1" using "1.prems" by (simp add: div_eq_0_iff)
    then show ?thesis by (simp add: bit_length_numeral)
  next
    case False
    then have IH: "2 ^ (bit_length (n div 2) - 1) \<le> n div 2" "n div 2 < 2 ^ bit_length (n div 2)"
      using "1.IH" "1.prems" by simp_all
    have pos: "0 < bit_length (n div 2)"
      using False by (subst bit_length.simps) simp
    then have "(2::nat) ^ bit_length (n div 2) = 2 * 2 ^ (bit_length (n div 2) - 1)"
      by (cases "bit_length (n div 2)") simp_all
    then have "(2::nat) ^ bit_length (n div 2) \<le> n"
      using IH(1) by simp
    moreover have "n < 2 * 2 ^ bit_length (n div 2)"
      using IH(2) by simp
    ultimately show ?thesis by (simp add: bl)
  qed
qed

lemma round_half_even_ge: "num div den \<le> round_half_even num den"
  by (simp add: round_half_even_def Let_def)

lemma round_double_overflow:
  assumes "2 ^ 1024 \<le> n"
  shows "round_double n 1 = Infinity"
proof -
  define b where "b = bit_length n"
  have n: "0 < n" using assms by (cases n) simp_all
  have lo: "2 ^ (b - 1) \<le> n" and hi: "n < 2 ^ b"
    using bit_length_bounds [OF n] by (simp_all add: b_def)
  have "(2::nat) ^ 1024 < 2 ^ b" using assms hi by (rule le_less_trans)
  then have b: "1024 < b" by (rule power_less_imp_less_exp [rotated]) simp
  have e: "floor_log2 n 1 = int b - 1"
    using lo b by (simp add: floor_log2_def bit_length_numeral b_def [symmetric] nat_diff_distrib)
  have q: "max (int b - 1 - 52) (- 1074) = int (b - 53)"
    using b by simp
  define k where "k = round_half_even n (1 * 2 ^ (b - 53))"
  have split: "(2::nat) ^ (b - 1) = 2 ^ 52 * 2 ^ (b - 53)"
  proof -
    have "b - 1 = 52 + (b - 53)" using b by simp
    then show ?thesis by (simp only: power_add)
  qed
  then have "2 ^ 52 * 2 ^ (b - 53) \<le> n" using lo by (simp only:)
  then have "2 ^ 52 \<le> n div 2 ^ (b - 53)"
    by (simp add: less_eq_div_iff_mult_less_eq)
  then have "2 ^ 52 \<le> k"
    using round_half_even_ge [of n "1 * 2 ^ (b - 53)"] by (simp add: k_def)
  then have "(2::nat) ^ 52 * 2 ^ (b - 53) \<le> k * 2 ^ (b - 53)" by simp
  moreover have "(2::nat) ^ 1024 \<le> 2 ^ (b - 1)"
    using b by (intro power_increasing) simp_all
  ultimately have "(2::nat) ^ 1024 \<le> k * 2 ^ (b - 53)"
    unfolding split by (rule order_trans [rotated])
  then have "real ((2::nat) ^ 1024) \<le> real (k * 2 ^ (b - 53))"
    by (rule iffD2 [OF of_nat_le_iff])
  then have v: "(2::real) ^ 1024 \<le> real k * 2 ^ (b - 53)" by simp
  show ?thesis
    unfolding round_double_def Let_def e q k_def [symmetric]
    using n v by (simp add: k_def)
qed

lemma digits_value_zeros: "digits_value (replicate k CHR ''0'') = 0"
  by (induction k) simp_all

lemma float_str_overflow: "float_str (CHR ''1'' # replicate 309 CHR ''0'') = Inr Infinity"
proof -
  define s where "s = CHR ''1'' # replicate 309 CHR ''0''"
  have "list_all is_digit s"
    by (simp add: s_def list_all_iff is_digit_def)
  then have tw: "takeWhile is_digit s = s" and dw: "dropWhile is_digit s = []"
    by (simp_all add: list_all_iff)
  have dv: "digits_value s = 10 ^ 309"
    by (simp add: s_def digits_value_zeros del: replicate.simps)
  have ne: "s \<noteq> []" by (simp add: s_def)
  have big: "(2::nat) ^ 1024 \<le> 10 ^ 309" by simp
  have "float_str s = Inr (round_double (digits_value s) 1)"
    unfolding float_str_def Let_def tw dw using ne by simp
  also have "round_double (digits_value s) 1 = Infinity"
    unfolding dv using big by (rule round_double_overflow)
  finally show ?thesis unfolding s_def .
qed

lemma float_str_100: "float_str ''100'' = Inr (Finite 100)"
  by (simp add: float_str_def class_defs round_defs)

text \<open>
  The threshold is the nearest double, not the decimal: \<open>0.1\<close> parses to
  \<open>3602879701896397 / 2^55\<close>, and \<open>2^53 + 1\<close> parses to \<open>2^53\<close>.
\<close>

lemma float_str_tenth: "float_str ''0.1'' = Inr (Finite (3602879701896397 / 36028797018963968))"
  by (simp add: float_str_def class_defs round_defs)

lemma float_str_2_53_1: "float_str ''9007199254740993'' = Inr (Finite 9007199254740992)"
  by (simp add: float_str_def class_defs round_defs)

text \<open>
  Claim C5. When the pattern matches and the operator is one of the six supported ones, the
  result for a numeric value \<open>x\<close> is that comparison of \<open>x\<close> with the threshold \<open>float\<close>
  returns for the number: the finite double \<open>r\<close>, or \<open>inf\<close>, which is above every value.
  At \<open>price <= 100\<close> the value 100 gives True and 101 gives False.
\<close>

theorem evaluate_sql_condition_compares:
  "(re_match s = Some (op, n) \<and> float_str n = Inr (Finite r) \<longrightarrow>
      (op = ''<='' \<longrightarrow> evaluate_sql_condition (PyNum x) (PyStr s) = (x \<le> r)) \<and>
      (op = ''>='' \<longrightarrow> evaluate_sql_condition (PyNum x) (PyStr s) = (x \<ge> r)) \<and>
      (op = ''<'' \<longrightarrow> evaluate_sql_condition (PyNum x) (PyStr s) = (x < r)) \<and>
      (op = ''>'' \<longrightarrow> evaluate_sql_condition (PyNum x) (PyStr s) = (x > r)) \<and>
      (op = ''='' \<longrightarrow> evaluate_sql_condition (PyNum x) (PyStr s) = (x = r)) \<and>
      (op = ''!='' \<longrightarrow> evaluate_sql_condition (PyNum x) (PyStr s) = (x \<noteq> r))) \<and>
   (re_match s = Some (op, n) \<and> float_str n = Inr Infinity \<longrightarrow>
      (op = ''<='' \<longrightarrow> evaluate_sql_condition (PyNum x) (PyStr s)) \<and>
      (op = ''>='' \<longrightarrow> \<not> evaluate_sql_condition (PyNum x) (PyStr s)) \<and>
      (op = ''<'' \<longrightarrow> evaluate_sql_condition (PyNum x) (PyStr s)) \<and>
      (op = ''>'' \<longrightarrow> \<not> evaluate_sql_condition (PyNum x) (PyStr s)) \<and>
      (op = ''='' \<longrightarrow> \<not> evaluate_sql_condition (PyNum x) (PyStr s)) \<and>
      (op = ''!='' \<longrightarrow> evaluate_sql_condition (PyNum x) (PyStr s))) \<and>
   evaluate_sql_condition (PyNum 100) (PyStr ''price <= 100'') \<and>
   \<not> evaluate_sql_condition (PyNum 101) (PyStr ''price <= 100'')"
proof -
  have ex: "evaluate_sql_condition (PyNum y) (PyStr ''price <= 100'') = (y \<le> 100)" for y
    using evaluate_num [OF re_match_price_le_100 float_str_100] by simp
  have gen: "evaluate_sql_condition (PyNum x) (PyStr s) =
     (if op = ''<='' then le_fl x t else if op = ''>='' then ge_fl x t
      else if op = ''<'' then lt_fl x t else if op = ''>'' then gt_fl x t
      else if op = ''='' then eq_fl x t else if op = ''!='' then \<not> eq_fl x t else True)"
    if "re_match s = Some (op, n)" "float_str n = Inr t" for t
    using that by (rule evaluate_num)
  have fin: "re_match s = Some (op, n) \<and> float_str n = Inr (Finite r) \<longrightarrow>
      (op = ''<='' \<longrightarrow> evaluate_sql_condition (PyNum x) (PyStr s) = (x \<le> r)) \<and>
      (op = ''>='' \<longrightarrow> evaluate_sql_condition (PyNum x) (PyStr s) = (x \<ge> r)) \<and>
      (op = ''<'' \<longrightarrow> evaluate_sql_condition (PyNum x) (PyStr s) = (x < r)) \<and>
      (op = ''>'' \<longrightarrow> evaluate_sql_condition (PyNum x) (PyStr s) = (x > r)) \<and>
      (op = ''='' \<longrightarrow> evaluate_sql_condition (PyNum x) (PyStr s) = (x = r)) \<and>
      (op = ''!='' \<longrightarrow> evaluate_sql_condition (PyNum x) (PyStr s) = (x \<noteq> r))"
    using gen [of "Finite r"] by simp
  have inf: "re_match s = Some (op, n) \<and> float_str n = Inr Infinity \<longrightarrow>
      (op = ''<='' \<longrightarrow> evaluate_sql_condition (PyNum x) (PyStr s)) \<and>
      (op = ''>='' \<longrightarrow> \<not> evaluate_sql_condition (PyNum x) (PyStr s)) \<and>
      (op = ''<'' \<longrightarrow> evaluate_sql_condition (PyNum x) (PyStr s)) \<and>
      (op = ''>'' \<longrightarrow> \<not> evaluate_sql_condition (PyNum x) (PyStr s)) \<and>
      (op = ''='' \<longrightarrow> \<not> evaluate_sql_condition (PyNum x) (PyStr s)) \<and>
      (op = ''!='' \<longrightarrow> evaluate_sql_condition (PyNum x) (PyStr s))"
    using gen [of Infinity] by simp
  show ?thesis
    using fin inf ex [of 100] ex [of 101] by simp
qed

theorem evaluate_sql_condition_compares_witness:
  "re_match ''size >= 30'' = Some (''>='', ''30'') \<and> float_str ''30'' = Inr (Finite 30) \<and>
   evaluate_sql_condition (PyNum 45) (PyStr ''size >= 30'') \<and>
   \<not> evaluate_sql_condition (PyNum 29) (PyStr ''size >= 30'') \<and>
   re_match ''size <= 0.1'' = Some (''<='', ''0.1'') \<and>
   float_str ''0.1'' = Inr (Finite (3602879701896397 / 36028797018963968)) \<and>
   evaluate_sql_condition (PyNum (1 / 10)) (PyStr ''size <= 0.1'') \<and>
   re_match ''price = 9007199254740993'' = Some (''='', ''9007199254740993'') \<and>
   float_str ''9007199254740993'' = Inr (Finite 9007199254740992) \<and>
   \<not> evaluate_sql_condition (PyNum 9007199254740993) (PyStr ''price = 9007199254740993'') \<and>
   re_match (''age>'' @ CHR ''1'' # replicate 309 CHR ''0'') =
     Some (''>'', CHR ''1'' # replicate 309 CHR ''0'') \<and>
   float_str (CHR ''1'' # replicate 309 CHR ''0'') = Inr Infinity \<and>
   \<not> evaluate_sql_condition (PyNum 7) (PyStr (''age>'' @ CHR ''1'' # replicate 309 CHR ''0''))"
proof -
  define big where "big = CHR ''1'' # replicate 309 CHR ''0''"
  have m1: "re_match ''size >= 30'' = Some (''>='', ''30'')"
    and m2: "re_match ''size <= 0.1'' = Some (''<='', ''0.1'')"
    and m3: "re_match ''price = 9007199254740993'' = Some (''='', ''9007199254740993'')"
    by (simp_all add: re_match_def class_defs)
  have "list_all is_numch big" "big \<noteq> []"
    by (simp_all add: big_def list_all_iff class_defs)
  then have "\<exists>ident sp1 sp2 nl.
      ''age>'' @ big = ident @ sp1 @ ''>'' @ sp2 @ big @ nl \<and>
      ident \<noteq> [] \<and> list_all is_word ident \<and> list_all is_space sp1 \<and>
      ''>'' \<noteq> [] \<and> list_all is_opch ''>'' \<and> list_all is_space sp2 \<and>
      big \<noteq> [] \<and> list_all is_numch big \<and> (nl = [] \<or> nl = [CHR 0x0A])"
    by (intro exI [of _ "''age''"] exI [of _ "[]"]) (simp add: class_defs)
  then have m4: "re_match (''age>'' @ big) = Some (''>'', big)"
    by (rule iffD2 [OF re_match_iff])
  have f1: "float_str ''30'' = Inr (Finite 30)"
    by (simp add: float_str_def class_defs round_defs)
  have f4: "float_str big = Inr Infinity"
    unfolding big_def by (rule float_str_overflow)
  have "evaluate_sql_condition (PyNum 45) (PyStr ''size >= 30'')"
    "\<not> evaluate_sql_condition (PyNum 29) (PyStr ''size >= 30'')"
    using m1 f1 evaluate_sql_condition_compares [of "''size >= 30''" "''>=''" "''30''" 30 45]
      evaluate_sql_condition_compares [of "''size >= 30''" "''>=''" "''30''" 30 29]
    by simp_all
  moreover have "evaluate_sql_condition (PyNum (1 / 10)) (PyStr ''size <= 0.1'')"
    using m2 float_str_tenth
      evaluate_sql_condition_compares [of "''size <= 0.1''" "''<=''" "''0.1''"
        "3602879701896397 / 36028797018963968" "1 / 10"]
    by simp
  moreover have "\<not> evaluate_sql_condition (PyNum 9007199254740993) (PyStr ''price = 9007199254740993'')"
    using m3 float_str_2_53_1
      evaluate_sql_condition_compares [of "''price = 9007199254740993''" "''=''" "''9007199254740993''"
        9007199254740992 9007199254740993]
    by simp
  moreover have "\<not> evaluate_sql_condition (PyNum 7) (PyStr (''age>'' @ big))"
    using m4 f4 evaluate_sql_condition_compares [of "''age>'' @ big" "''>''" big 0 7]
    by simp
  ultimately show ?thesis
    using m1 m2 m3 m4 f1 f4 float_str_tenth float_str_2_53_1 unfolding big_def by simp
qed

lemma re_match_ident:
  assumes "w \<noteq> []" "list_all is_word w" "rest = [] \<or> \<not> is_word (hd rest)"
  shows "re_match (w @ rest) = re_match (CHR ''x'' # rest)"
proof -
  have r: "takeWhile is_word rest = []" "dropWhile is_word rest = rest"
    using assms(3) by (cases rest; auto)+
  have "takeWhile is_word (w @ rest) = w" "dropWhile is_word (w @ rest) = rest"
    using assms(2) r by (simp_all add: list_all_iff takeWhile_append2 dropWhile_append2)
  moreover have "is_word CHR ''x''" by (simp add: is_word_def)
  ultimately show ?thesis
    using assms(1) r by (simp add: re_match_def)
qed

lemma evaluate_ident:
  assumes "w \<noteq> []" "list_all is_word w" "rest = [] \<or> \<not> is_word (hd rest)"
  shows "evaluate_sql_condition v (PyStr (w @ rest)) = evaluate_sql_condition v (PyStr (CHR ''x'' # rest))"
  using assms(1) re_match_ident [OF assms]
  by (simp add: evaluate_str condition_body_re_match)

lemma hd_after_ident:
  assumes "list_all is_space sp" "op \<noteq> []" "list_all is_opch op"
  shows "\<not> is_word (hd (sp @ op @ tl'))"
proof (cases sp)
  case Nil
  then show ?thesis using assms(2,3) by (cases op) (auto simp: class_defs Let_def)
next
  case (Cons a as)
  then have "is_space a" using assms(1) by simp
  then show ?thesis using Cons by (auto simp: class_defs Let_def)
qed

text \<open>
  Claim C9. The identifier does not matter: two condition strings that differ only in their
  identifiers (any two non-empty runs of word characters) evaluate alike at every value.
  Nothing is assumed of what follows the operator.
\<close>

theorem evaluate_sql_condition_ignores_identifier:
  assumes "w1 \<noteq> []" "list_all is_word w1" "w2 \<noteq> []" "list_all is_word w2"
    and "list_all is_space sp1" "op \<noteq> []" "list_all is_opch op"
  shows "evaluate_sql_condition v (PyStr (w1 @ sp1 @ op @ sp2 @ n)) =
         evaluate_sql_condition v (PyStr (w2 @ sp1 @ op @ sp2 @ n))"
proof -
  have "\<not> is_word (hd (sp1 @ op @ sp2 @ n))"
    using assms(5-7) by (rule hd_after_ident)
  then show ?thesis
    using evaluate_ident [OF assms(1,2)] evaluate_ident [OF assms(3,4)] by simp
qed

theorem evaluate_sql_condition_ignores_identifier_witness:
  "''age'' \<noteq> [] \<and> list_all is_word ''age'' \<and> ''foo'' \<noteq> [] \<and> list_all is_word ''foo'' \<and>
   list_all is_space '' '' \<and> ''<='' \<noteq> [] \<and> list_all is_opch ''<='' \<and>
   evaluate_sql_condition (PyNum 150) (PyStr ''age <= 100'') =
   evaluate_sql_condition (PyNum 150) (PyStr ''foo <= 100'')"
  using evaluate_sql_condition_ignores_identifier
    [of "''age''" "''foo''" "'' ''" "''<=''" "PyNum 150" "'' ''" "''100''"]
  by (simp add: class_defs)

text \<open>
  Claim C10. A string the pattern matches whose operator token is none of the six
  supported ones evaluates to True at every value, whether its threshold parses or not;
  \<open>==\<close>, \<open><>\<close> and \<open>=>\<close> are such tokens.
\<close>

theorem evaluate_sql_condition_unsupported_operator:
  "(re_match s = Some (op, n) \<and> op \<notin> {''<='', ''>='', ''<'', ''>'', ''='', ''!=''} \<longrightarrow>
      evaluate_sql_condition v (PyStr s)) \<and>
   evaluate_sql_condition v (PyStr ''price == 100'') \<and>
   evaluate_sql_condition v (PyStr ''price <> 100'') \<and>
   evaluate_sql_condition v (PyStr ''price => 100'')"
proof -
  have gen: "evaluate_sql_condition v (PyStr s)"
    if "re_match s = Some (op, n)" "op \<notin> {''<='', ''>='', ''<'', ''>'', ''='', ''!=''}" for s op n
    using that by (simp add: evaluate_str condition_body_re_match split: sum.splits)
  have m1: "re_match ''price == 100'' = Some (''=='', ''100'')"
    by (simp add: re_match_def class_defs)
  have m2: "re_match ''price <> 100'' = Some (''<>'', ''100'')"
    by (simp add: re_match_def class_defs)
  have m3: "re_match ''price => 100'' = Some (''=>'', ''100'')"
    by (simp add: re_match_def class_defs)
  have e1: "evaluate_sql_condition v (PyStr ''price == 100'')"
    by (rule gen [OF m1]) simp
  have e2: "evaluate_sql_condition v (PyStr ''price <> 100'')"
    by (rule gen [OF m2]) simp
  have e3: "evaluate_sql_condition v (PyStr ''price => 100'')"
    by (rule gen [OF m3]) simp
  show ?thesis
    using e1 e2 e3 gen [of s op n] by simp
qed

theorem evaluate_sql_condition_unsupported_operator_witness:
  "re_match ''age =< 7'' = Some (''=<'', ''7'') \<and>
   ''=<'' \<notin> {''<='', ''>='', ''<'', ''>'', ''='', ''!=''} \<and>
   evaluate_sql_condition (PyNum 99) (PyStr ''age =< 7'')"
proof -
  have m: "re_match ''age =< 7'' = Some (''=<'', ''7'')"
    by (simp add: re_match_def class_defs)
  show ?thesis
    using m evaluate_sql_condition_unsupported_operator [of "''age =< 7''" "''=<''" "''7''" "PyNum 99"]
    by simp
qed

section \<open>Properties of the great-circle distance\<close>

lemma hav_a_exact:
  "hav_a exact lat1 lon1 lat2 lon2 =
     (sin ((radians lat2 - radians lat1) / 2))\<^sup>2 +
     cos (radians lat1) * cos (radians lat2) * (sin ((radians lon2 - radians lon1) / 2))\<^sup>2"
  by (simp add: hav_a_def exact_def Let_def)

text \<open>
  Symmetry needs little of the arithmetic: subtraction, halving and the sine change sign
  with their argument, squaring does not, and multiplication commutes. Doubles have the
  first, second, fourth and fifth property; the third is a property of the C library.
\<close>

lemma hav_a_sym_machine:
  assumes "\<And>x y. m_sub m x y = - m_sub m y x" "\<And>x. m_div m (- x) 2 = - m_div m x 2"
    and "\<And>x. m_sin m (- x) = - m_sin m x" "\<And>x. m_sqr m (- x) = m_sqr m x"
    and "\<And>x y. m_mul m x y = m_mul m y x"
  shows "hav_a m lat1 lon1 lat2 lon2 = hav_a m lat2 lon2 lat1 lon1"
proof -
  have sq: "m_sqr m (m_sin m (m_div m (m_sub m x y) 2)) = m_sqr m (m_sin m (m_div m (m_sub m y x) 2))"
    for x y
  proof -
    have "m_sin m (m_div m (m_sub m x y) 2) = - m_sin m (m_div m (m_sub m y x) 2)"
      using assms(1) [of x y] assms(2,3) by simp
    then show ?thesis using assms(4) by simp
  qed
  show ?thesis
    unfolding hav_a_def Let_def
    using sq [of "m_radians m lat2" "m_radians m lat1"] sq [of "m_radians m lon2" "m_radians m lon1"]
      assms(5) [of "m_cos m (m_radians m lat1)" "m_cos m (m_radians m lat2)"]
    by simp
qed

lemma haversine_sym_machine:
  assumes "\<And>x y. m_sub m x y = - m_sub m y x" "\<And>x. m_div m (- x) 2 = - m_div m x 2"
    and "\<And>x. m_sin m (- x) = - m_sin m x" "\<And>x. m_sqr m (- x) = m_sqr m x"
    and "\<And>x y. m_mul m x y = m_mul m y x"
  shows "haversine m lat1 lon1 lat2 lon2 = haversine m lat2 lon2 lat1 lon1"
  unfolding haversine_def hav_a_sym_machine [OF assms, of lat1 lon1 lat2 lon2] ..

lemma hav_a_range: "0 \<le> hav_a exact lat1 lon1 lat2 lon2 \<and> hav_a exact lat1 lon1 lat2 lon2 \<le> 1"
proof -
  define p1 where "p1 = radians lat1"
  define p2 where "p2 = radians lat2"
  define t where "t = (sin ((radians lon2 - radians lon1) / 2))\<^sup>2"
  define A where "A = cos (p2 - p1)"
  define B where "B = cos (p2 + p1)"
  have t: "0 \<le> t" "t \<le> 1"
    unfolding t_def by (simp_all add: abs_square_le_1 abs_sin_le_one)
  have A: "- 1 \<le> A" "A \<le> 1" and B: "- 1 \<le> B" "B \<le> 1"
    unfolding A_def B_def by simp_all
  have half: "(sin ((p2 - p1) / 2))\<^sup>2 = (1 - A) / 2"
  proof -
    have d: "cos (2 * ((p2 - p1) / 2)) = 1 - 2 * (sin ((p2 - p1) / 2))\<^sup>2"
      by (rule cos_double_sin)
    have "2 * ((p2 - p1) / 2) = p2 - p1" by simp
    then have "A = 1 - 2 * (sin ((p2 - p1) / 2))\<^sup>2"
      unfolding A_def using d by (simp only:)
    then show ?thesis by simp
  qed
  have prod: "cos p1 * cos p2 = (A + B) / 2"
    unfolding A_def B_def by (simp add: cos_add cos_diff)
  have "hav_a exact lat1 lon1 lat2 lon2 = (sin ((p2 - p1) / 2))\<^sup>2 + cos p1 * cos p2 * t"
    by (simp add: hav_a_exact p1_def p2_def t_def)
  then have a: "hav_a exact lat1 lon1 lat2 lon2 = (1 - A) / 2 + (A + B) / 2 * t"
    by (simp only: half prod)
  have e1: "(1 - A) / 2 + (A + B) / 2 * t = ((1 - A) * (1 - t) + (1 + B) * t) / 2"
    by (simp add: field_simps)
  have e2: "1 - ((1 - A) / 2 + (A + B) / 2 * t) = ((1 + A) * (1 - t) + (1 - B) * t) / 2"
    by (simp add: field_simps)
  have n: "0 \<le> (1 - A) * (1 - t)" "0 \<le> (1 + B) * t" "0 \<le> (1 + A) * (1 - t)" "0 \<le> (1 - B) * t"
    using A B t by (simp_all add: mult_nonneg_nonneg)
  have "0 \<le> ((1 - A) * (1 - t) + (1 + B) * t) / 2"
    using n(1,2) by simp
  moreover have "0 \<le> ((1 + A) * (1 - t) + (1 - B) * t) / 2"
    using n(3,4) by simp
  ultimately have "0 \<le> hav_a exact lat1 lon1 lat2 lon2" "0 \<le> 1 - hav_a exact lat1 lon1 lat2 lon2"
    using a e1 e2 by (simp_all only:)
  then show ?thesis by simp
qed

text \<open>In exact arithmetic \<open>haversine\<close> never raises, and returns the haversine formula.\<close>

lemma haversine_exact:
  "haversine exact lat1 lon1 lat2 lon2 =
     Inr (6371 * (2 * atan2 (sqrt (hav_a exact lat1 lon1 lat2 lon2))
                            (sqrt (1 - hav_a exact lat1 lon1 lat2 lon2))))"
proof -
  define a where "a = hav_a exact lat1 lon1 lat2 lon2"
  have r: "0 \<le> a" "a \<le> 1"
    using hav_a_range [of lat1 lon1 lat2 lon2] by (simp_all add: a_def)
  have ops: "m_sub exact 1 a = 1 - a" "m_sqrt exact = sqrt" "m_mul exact = (*)"
    "m_atan2 exact = atan2"
    by (simp_all add: exact_def)
  show ?thesis
    unfolding haversine_def Let_def a_def [symmetric] py_sqrt_def ops using r by simp
qed

text \<open>\<open>haversine\<close> raises exactly when \<open>a\<close> or \<open>1 - a\<close> comes out negative, and then ValueError.\<close>

lemma haversine_raises:
  "haversine m lat1 lon1 lat2 lon2 = Inl e \<longleftrightarrow>
     e = ValueError \<and>
     (hav_a m lat1 lon1 lat2 lon2 < 0 \<or> m_sub m 1 (hav_a m lat1 lon1 lat2 lon2) < 0)"
  by (auto simp: haversine_def py_sqrt_def Let_def)

lemma exact_laws:
  "m_sub exact x y = - m_sub exact y x" "m_div exact (- x) 2 = - m_div exact x 2"
  "m_sin exact (- x) = - m_sin exact x" "m_sqr exact (- x) = m_sqr exact x"
  "m_mul exact x y = m_mul exact y x"
  by (simp_all add: exact_def)

text \<open>
  Claim C8. \<open>haversine\<close> is a function of its arguments alone, and over the reals, in exact
  arithmetic, it is symmetric: the distance from a to b equals the distance from b to a;
  it never raises there and is the haversine formula. Lemma \<open>haversine_sym_machine\<close>
  gives the same symmetry for every arithmetic with the sign laws stated there.
\<close>

theorem haversine_symmetric:
  "haversine exact lat1 lon1 lat2 lon2 = haversine exact lat2 lon2 lat1 lon1 \<and>
   haversine exact lat1 lon1 lat2 lon2 =
     Inr (6371 * (2 * atan2 (sqrt (hav_a exact lat1 lon1 lat2 lon2))
                            (sqrt (1 - hav_a exact lat1 lon1 lat2 lon2))))"
  using haversine_sym_machine [of exact lat1 lon1 lat2 lon2, OF exact_laws]
    haversine_exact [of lat1 lon1 lat2 lon2]
  by simp

lemma hav_a_half_turn: "hav_a exact 0 0 0 180 = 1"
  by (simp add: hav_a_exact radians_def)

lemma haversine_half_turn: "haversine exact 0 0 0 180 = Inr (6371 * pi)"
  by (simp add: haversine_exact hav_a_half_turn atan2_def)

lemma haversine_same: "haversine exact 0 0 0 0 = Inr 0"
  by (simp add: haversine_exact hav_a_exact radians_def atan2_def)

theorem haversine_symmetric_witness:
  "haversine exact 0 0 0 180 = haversine exact 0 180 0 0 \<and>
   haversine exact 0 180 0 0 = Inr (6371 * pi)"
  using haversine_symmetric [of 0 0 0 180] haversine_half_turn by simp

text \<open>With sums that round upwards, the half turn along the equator raises.\<close>

lemma hav_a_skewed: "hav_a skewed lat1 lon1 lat2 lon2 = hav_a exact lat1 lon1 lat2 lon2 * (1 + 1 / 2 ^ 53)"
  by (simp add: hav_a_def skewed_def exact_def Let_def)

lemma haversine_skewed_half_turn: "haversine skewed 0 0 0 180 = Inl ValueError"
proof -
  have "m_sub skewed 1 x = 1 - x" for x
    by (simp add: skewed_def exact_def)
  then have "m_sub skewed 1 (hav_a skewed 0 0 0 180) < 0"
    by (simp add: hav_a_skewed hav_a_half_turn)
  then show ?thesis by (simp add: haversine_raises)
qed

lemma haversine_skewed_same: "haversine skewed 0 0 0 0 = Inr 0"
proof -
  have a: "hav_a skewed 0 0 0 0 = 0"
    by (simp add: hav_a_skewed hav_a_exact radians_def)
  have ops: "m_sub skewed 1 0 = 1" "m_sqrt skewed = sqrt" "m_mul skewed = (*)"
    "m_atan2 skewed = atan2"
    by (simp_all add: skewed_def exact_def)
  show ?thesis
    unfolding haversine_def Let_def a py_sqrt_def ops by (simp add: atan2_def)
qed

section \<open>Properties of the filter\<close>

subsection \<open>Every stage filters by a condition on single listings\<close>

lemma filter_raise_Inr:
  "filter_raise p xs = Inr ys \<Longrightarrow>
     ys = filter (\<lambda>x. p x = Inr True) xs \<and> (\<forall>x \<in> set xs. \<exists>b. p x = Inr b)"
proof (induction xs arbitrary: ys)
  case Nil
  then show ?case by simp
next
  case (Cons x xs)
  then show ?case
    by (auto split: sum.splits if_splits)
qed

lemma filter_raise_returns:
  "(\<forall>x \<in> set xs. \<exists>b. p x = Inr b) \<Longrightarrow> filter_raise p xs = Inr (filter (\<lambda>x. p x = Inr True) xs)"
  by (induction xs) auto

lemma filter_raise_Inl: "filter_raise p xs = Inl e \<Longrightarrow> \<exists>x \<in> set xs. p x = Inl e"
  by (induction xs) (auto split: sum.splits)

lemma filter_raise_raises:
  "x \<in> set xs \<Longrightarrow> p x = Inl e \<Longrightarrow> \<exists>e'. filter_raise p xs = Inl e'"
proof (rule ccontr)
  assume x: "x \<in> set xs" "p x = Inl e" and "\<nexists>e'. filter_raise p xs = Inl e'"
  then obtain ys where "filter_raise p xs = Inr ys" by (cases "filter_raise p xs") auto
  then have "\<exists>b. p x = Inr b" using filter_raise_Inr x(1) by blast
  then show False using x(2) by simp
qed

lemma in_radius_Inr:
  "in_radius m clat clon d h = Inr b \<longleftrightarrow>
     (\<exists>x. haversine m clat clon (latitude h) (longitude h) = Inr x \<and> b = (x \<le> d))"
  by (auto simp: in_radius_def split: sum.splits)

lemma in_radius_Inl:
  "in_radius m clat clon d h = Inl e \<longleftrightarrow> haversine m clat clon (latitude h) (longitude h) = Inl e"
  by (auto simp: in_radius_def split: sum.splits)

lemma stage_geo_active:
  "location c = Some (clat, clon) \<Longrightarrow> distance c = Some d \<Longrightarrow> d \<noteq> 0 \<Longrightarrow>
   stage_geo m c xs = filter_raise (in_radius m clat clon d) xs"
  by (simp add: stage_geo_def)

lemma stage_geo_skip:
  "location c = None \<or> distance c = None \<or> distance c = Some 0 \<Longrightarrow> stage_geo m c xs = Inr xs"
  by (auto simp: stage_geo_def split: option.splits)

lemma stage_geo_cases:
  obtains (active) clat clon d where "location c = Some (clat, clon)" "distance c = Some d" "d \<noteq> 0"
  | (skip) "location c = None \<or> distance c = None \<or> distance c = Some 0"
  by (cases "location c"; cases "distance c") auto

lemma stage_geo_pointwise:
  assumes "stage_geo m c xs = Inr ys"
  shows "ys = filter (\<lambda>h. stage_geo m c [h] = Inr [h]) xs"
proof (cases rule: stage_geo_cases [of c])
  case (active clat clon d)
  have "stage_geo m c [h] = Inr [h] \<longleftrightarrow> in_radius m clat clon d h = Inr True" for h
    by (auto simp: stage_geo_active [OF active] split: sum.splits)
  then show ?thesis
    using assms filter_raise_Inr [of "in_radius m clat clon d" xs ys]
    by (simp add: stage_geo_active [OF active])
next
  case skip
  then show ?thesis using assms by (simp add: stage_geo_skip)
qed

lemma stage_geo_single:
  "stage_geo m c [h] = Inr ys \<Longrightarrow> ys = [] \<or> ys = [h]"
  using stage_geo_pointwise [of m c "[h]" ys] by (auto split: if_splits)

lemma stage_cond_filter: "\<exists>P. \<forall>xs. stage_cond f cond xs = filter P xs"
proof (cases "truthy cond")
  case True
  then have "\<forall>xs. stage_cond f cond xs = filter (\<lambda>h. evaluate_sql_condition (PyNum (f h)) cond) xs"
    by (simp add: stage_cond_def)
  then show ?thesis by blast
next
  case False
  then have "\<forall>xs. stage_cond f cond xs = filter (\<lambda>h. True) xs"
    by (simp add: stage_cond_def)
  then show ?thesis by blast
qed

lemma stage_exclude_filter: "\<exists>P. \<forall>xs. stage_exclude c xs = filter P xs"
proof (cases "\<exists>ex. labels_to_exclude c = Some ex \<and> ex \<noteq> []")
  case True
  then obtain ex where "labels_to_exclude c = Some ex" "ex \<noteq> []" by blast
  then have "\<forall>xs. stage_exclude c xs = filter (\<lambda>h. set ex \<inter> set (get_label h) = {}) xs"
    by (simp add: stage_exclude_def)
  then show ?thesis by blast
next
  case False
  then have "\<forall>xs. stage_exclude c xs = filter (\<lambda>h. True) xs"
    by (auto simp: stage_exclude_def split: option.splits)
  then show ?thesis by blast
qed

lemma stage_include_filter: "\<exists>P. \<forall>xs. stage_include c xs = filter P xs"
proof (cases "\<exists>inc. labels_to_include c = Some inc \<and> inc \<noteq> []")
  case True
  then obtain inc where "labels_to_include c = Some inc" "inc \<noteq> []" by blast
  then have "\<forall>xs. stage_include c xs = filter (\<lambda>h. set inc \<subseteq> set (get_label h)) xs"
    by (simp add: stage_include_def)
  then show ?thesis by blast
next
  case False
  then have "\<forall>xs. stage_include c xs = filter (\<lambda>h. True) xs"
    by (auto simp: stage_include_def split: option.splits)
  then show ?thesis by blast
qed

lemma later_stages_iff:
  "later_stages c [h] = [h] \<longleftrightarrow>
     stage_cond price (price_c c) [h] = [h] \<and> stage_cond age (age_c c) [h] = [h] \<and>
     stage_cond size_h (size_c c) [h] = [h] \<and> stage_exclude c [h] = [h] \<and>
     stage_include c [h] = [h]"
proof -
  obtain P2 where P2: "\<And>xs. stage_cond price (price_c c) xs = filter P2 xs"
    using stage_cond_filter [of price "price_c c"] by blast
  obtain P3 where P3: "\<And>xs. stage_cond age (age_c c) xs = filter P3 xs"
    using stage_cond_filter [of age "age_c c"] by blast
  obtain P4 where P4: "\<And>xs. stage_cond size_h (size_c c) xs = filter P4 xs"
    using stage_cond_filter [of size_h "size_c c"] by blast
  obtain P5 where P5: "\<And>xs. stage_exclude c xs = filter P5 xs"
    using stage_exclude_filter [of c] by blast
  obtain P6 where P6: "\<And>xs. stage_include c xs = filter P6 xs"
    using stage_include_filter [of c] by blast
  show ?thesis
    unfolding later_stages_def P2 P3 P4 P5 P6 by simp
qed

lemma later_stages_pointwise:
  "later_stages c xs = filter (\<lambda>h. later_stages c [h] = [h]) xs"
proof -
  obtain P2 where P2: "\<And>xs. stage_cond price (price_c c) xs = filter P2 xs"
    using stage_cond_filter [of price "price_c c"] by blast
  obtain P3 where P3: "\<And>xs. stage_cond age (age_c c) xs = filter P3 xs"
    using stage_cond_filter [of age "age_c c"] by blast
  obtain P4 where P4: "\<And>xs. stage_cond size_h (size_c c) xs = filter P4 xs"
    using stage_cond_filter [of size_h "size_c c"] by blast
  obtain P5 where P5: "\<And>xs. stage_exclude c xs = filter P5 xs"
    using stage_exclude_filter [of c] by blast
  obtain P6 where P6: "\<And>xs. stage_include c xs = filter P6 xs"
    using stage_include_filter [of c] by blast
  have "(\<lambda>h. later_stages c [h] = [h]) = (\<lambda>h. P2 h \<and> P3 h \<and> P4 h \<and> P5 h \<and> P6 h)"
    unfolding later_stages_def P2 P3 P4 P5 P6 by (rule ext) simp
  moreover have "later_stages c xs = filter P6 (filter P5 (filter P4 (filter P3 (filter P2 xs))))"
    unfolding later_stages_def P2 P3 P4 P5 P6 by simp
  ultimately show ?thesis
    by (simp add: conj_ac)
qed

lemma later_stages_Nil: "later_stages c [] = []"
  using later_stages_pointwise [of c "[]"] by simp

lemma passes_iff:
  "passes m c h \<longleftrightarrow> stage_geo m c [h] = Inr [h] \<and> later_stages c [h] = [h]"
proof (cases "stage_geo m c [h]")
  case (Inl e)
  then show ?thesis by (simp add: passes_def)
next
  case (Inr ys)
  then have "ys = [] \<or> ys = [h]" by (rule stage_geo_single)
  then show ?thesis using Inr by (auto simp: passes_def later_stages_Nil)
qed

lemma filter_houses_passes:
  assumes "filter_houses m L c = Inr res"
  shows "res = take 10 (filter (passes m c) L)"
proof (cases "L = []")
  case True
  then show ?thesis using assms by (simp add: filter_houses_def)
next
  case False
  then obtain ys where ys: "stage_geo m c L = Inr ys" and res: "res = take 10 (later_stages c ys)"
    using assms by (auto simp: filter_houses_def split: sum.splits)
  have "later_stages c ys = filter (\<lambda>h. later_stages c [h] = [h]) (filter (\<lambda>h. stage_geo m c [h] = Inr [h]) L)"
    using later_stages_pointwise [of c ys] stage_geo_pointwise [OF ys] by simp
  also have "\<dots> = filter (passes m c) L"
    by (simp add: passes_iff [abs_def] conj_ac)
  finally show ?thesis using res by simp
qed

lemma in_filter_houses:
  "filter_houses m L c = Inr res \<Longrightarrow> h \<in> set res \<Longrightarrow> passes m c h"
  using filter_houses_passes [of m L c res] by (auto dest: in_set_takeD)

lemma passes_no_criteria:
  assumes "location c = None" "price_c c = PyNone" "age_c c = PyNone" "size_c c = PyNone"
    "labels_to_exclude c = None" "labels_to_include c = None"
  shows "passes m c h"
  using assms
  by (simp add: passes_def later_stages_def stage_geo_def stage_cond_def stage_exclude_def
      stage_include_def)

lemma filter_houses_returns:
  assumes "location c = None \<or> distance c = None \<or> distance c = Some 0 \<or>
    (\<forall>h \<in> set L. \<exists>x. haversine m (fst (the (location c))) (snd (the (location c)))
        (latitude h) (longitude h) = Inr x)"
  shows "\<exists>res. filter_houses m L c = Inr res"
proof (cases rule: stage_geo_cases [of c])
  case (active clat clon d)
  then have "\<forall>h \<in> set L. \<exists>x. haversine m clat clon (latitude h) (longitude h) = Inr x"
    using assms by auto
  then have "\<forall>h \<in> set L. \<exists>b. in_radius m clat clon d h = Inr b"
    by (auto simp: in_radius_Inr)
  then have "\<exists>ys. stage_geo m c L = Inr ys"
    using filter_raise_returns [of L "in_radius m clat clon d"]
    by (simp add: stage_geo_active [OF active])
  then show ?thesis by (auto simp: filter_houses_def)
next
  case skip
  then show ?thesis by (simp add: filter_houses_def stage_geo_skip)
qed

lemma filter_houses_raises:
  assumes "location c = Some (clat, clon)" "distance c = Some d" "d \<noteq> 0" "h \<in> set L"
    and "haversine m clat clon (latitude h) (longitude h) = Inl e"
  shows "filter_houses m L c = Inl ValueError"
proof -
  have "in_radius m clat clon d h = Inl e" using assms(5) by (simp add: in_radius_Inl)
  then obtain e' where e': "filter_raise (in_radius m clat clon d) L = Inl e'"
    using filter_raise_raises [OF assms(4)] by blast
  then obtain h' where "in_radius m clat clon d h' = Inl e'"
    using filter_raise_Inl by blast
  then have "e' = ValueError" by (simp add: in_radius_Inl haversine_raises)
  moreover have "L \<noteq> []" using assms(4) by auto
  ultimately show ?thesis
    using e' by (simp add: filter_houses_def stage_geo_active [OF assms(1-3)])
qed

lemma stage_geo_keeps_iff:
  "stage_geo m c [h] = Inr [h] \<longleftrightarrow>
     (\<forall>clat clon d. location c = Some (clat, clon) \<and> distance c = Some d \<and> d \<noteq> 0 \<longrightarrow>
        (\<exists>x. haversine m clat clon (latitude h) (longitude h) = Inr x \<and> x \<le> d))"
proof (cases rule: stage_geo_cases [of c])
  case (active clat clon d)
  have "stage_geo m c [h] = Inr [h] \<longleftrightarrow> in_radius m clat clon d h = Inr True"
    by (auto simp: stage_geo_active [OF active] split: sum.splits)
  then show ?thesis using active by (simp add: in_radius_Inr)
next
  case skip
  then show ?thesis by (auto simp: stage_geo_skip)
qed

text \<open>What passing the criteria means for one listing, stage by stage.\<close>

lemma passes_explicit:
  "passes m c h \<longleftrightarrow>
     (\<forall>clat clon d. location c = Some (clat, clon) \<and> distance c = Some d \<and> d \<noteq> 0 \<longrightarrow>
        (\<exists>x. haversine m clat clon (latitude h) (longitude h) = Inr x \<and> x \<le> d)) \<and>
     (truthy (price_c c) \<longrightarrow> evaluate_sql_condition (PyNum (price h)) (price_c c)) \<and>
     (truthy (age_c c) \<longrightarrow> evaluate_sql_condition (PyNum (age h)) (age_c c)) \<and>
     (truthy (size_c c) \<longrightarrow> evaluate_sql_condition (PyNum (size_h h)) (size_c c)) \<and>
     (\<forall>ex. labels_to_exclude c = Some ex \<and> ex \<noteq> [] \<longrightarrow> set ex \<inter> set (get_label h) = {}) \<and>
     (\<forall>inc. labels_to_include c = Some inc \<and> inc \<noteq> [] \<longrightarrow> set inc \<subseteq> set (get_label h))"
proof -
  have "stage_cond f cond [h] = [h] \<longleftrightarrow> (truthy cond \<longrightarrow> evaluate_sql_condition (PyNum (f h)) cond)"
    for f cond
    by (simp add: stage_cond_def)
  moreover have "stage_exclude c [h] = [h] \<longleftrightarrow>
      (\<forall>ex. labels_to_exclude c = Some ex \<and> ex \<noteq> [] \<longrightarrow> set ex \<inter> set (get_label h) = {})"
    by (simp add: stage_exclude_def split: option.splits)
  moreover have "stage_include c [h] = [h] \<longleftrightarrow>
      (\<forall>inc. labels_to_include c = Some inc \<and> inc \<noteq> [] \<longrightarrow> set inc \<subseteq> set (get_label h))"
    by (simp add: stage_include_def split: option.splits)
  ultimately show ?thesis
    by (simp only: passes_iff later_stages_iff stage_geo_keeps_iff)
qed

lemma haversine_exact_returns: "\<exists>x. haversine exact lat1 lon1 lat2 lon2 = Inr x"
  by (simp add: haversine_exact)

text \<open>
  Claim C3. Whenever \<open>filter_houses\<close> returns, it returns the first ten of the listings
  that pass the criteria, in the order of the collection: at most ten listings, a
  subsequence of the collection. With every criteria field absent it returns the first ten
  listings (all of them when there are fewer), and on the empty collection the empty list.
  Lemma \<open>passes_explicit\<close> spells out what passing means, stage by stage.
  In exact arithmetic it always returns. It does not return for every collection and
  criteria: with the geographic stage on, a listing for which rounding makes \<open>1 - a\<close>
  negative makes \<open>math.sqrt\<close> raise ValueError, and the exception leaves \<open>filter_houses\<close>.
\<close>

theorem filter_houses_first_ten:
  "(filter_houses m L c = Inr res \<longrightarrow>
      res = take 10 (filter (passes m c) L) \<and> length res \<le> 10 \<and> subseq res L) \<and>
   (location c = None \<and> distance c = None \<and> price_c c = PyNone \<and> age_c c = PyNone \<and>
    size_c c = PyNone \<and> labels_to_exclude c = None \<and> labels_to_include c = None \<longrightarrow>
      filter_houses m L c = Inr (take 10 L)) \<and>
   filter_houses m [] c = Inr [] \<and>
   (\<exists>r. filter_houses exact L c = Inr r) \<and>
   (location c = Some (clat, clon) \<and> distance c = Some d \<and> d \<noteq> 0 \<and> h \<in> set L \<and>
    m_sub m 1 (hav_a m clat clon (latitude h) (longitude h)) < 0 \<longrightarrow>
      filter_houses m L c = Inl ValueError)"
proof -
  have sub: "subseq (take 10 (filter (passes m c) L)) L"
  proof -
    have "subseq (take 10 (filter (passes m c) L)) (filter (passes m c) L)"
      by (metis append_take_drop_id prefix_def prefix_imp_subseq)
    then show ?thesis
      using subseq_filter_left subseq_order.trans by blast
  qed
  have a: "filter_houses m L c = Inr res \<longrightarrow>
      res = take 10 (filter (passes m c) L) \<and> length res \<le> 10 \<and> subseq res L"
    using filter_houses_passes [of m L c res] sub by auto
  have b: "filter_houses m L c = Inr (take 10 L)"
    if "location c = None" "price_c c = PyNone" "age_c c = PyNone" "size_c c = PyNone"
      "labels_to_exclude c = None" "labels_to_include c = None"
  proof -
    have "\<exists>r. filter_houses m L c = Inr r"
      by (rule filter_houses_returns) (simp add: that(1))
    then obtain r where r: "filter_houses m L c = Inr r" ..
    have "filter (passes m c) L = L"
      using passes_no_criteria [OF that] by simp
    then show ?thesis using r filter_houses_passes [OF r] by simp
  qed
  have e: "\<exists>r. filter_houses exact L c = Inr r"
    by (rule filter_houses_returns) (simp add: haversine_exact_returns)
  have f: "filter_houses m L c = Inl ValueError"
    if "location c = Some (clat, clon)" "distance c = Some d" "d \<noteq> 0" "h \<in> set L"
      "m_sub m 1 (hav_a m clat clon (latitude h) (longitude h)) < 0"
  proof -
    have "haversine m clat clon (latitude h) (longitude h) = Inl ValueError"
      using that(5) by (simp add: haversine_raises)
    then show ?thesis by (rule filter_houses_raises [OF that(1-4)])
  qed
  show ?thesis
    using a b e f by (simp add: filter_houses_def)
qed

lemmas example_defs = listing_at_def no_criteria_def zero_radius_def

theorem filter_houses_first_ten_witness:
  "location no_criteria = None \<and> distance no_criteria = None \<and> price_c no_criteria = PyNone \<and>
   age_c no_criteria = PyNone \<and> size_c no_criteria = PyNone \<and>
   labels_to_exclude no_criteria = None \<and> labels_to_include no_criteria = None \<and>
   filter_houses exact (map (\<lambda>x. listing_at x 0 None) [1, 2, 3, 4, 5, 6, 7, 8, 9, 10, 11, 12])
     no_criteria = Inr (map (\<lambda>x. listing_at x 0 None) [1, 2, 3, 4, 5, 6, 7, 8, 9, 10]) \<and>
   length (map (\<lambda>x. listing_at x 0 None) [1 :: real, 2, 3, 4, 5, 6, 7, 8, 9, 10]) \<le> 10 \<and>
   location (no_criteria\<lparr>location := Some (0, 0), distance := Some 50\<rparr>) = Some (0, 0) \<and>
   distance (no_criteria\<lparr>location := Some (0, 0), distance := Some 50\<rparr>) = Some 50 \<and>
   (50 :: real) \<noteq> 0 \<and>
   listing_at 0 180 None \<in> set [listing_at 0 0 None, listing_at 0 180 None] \<and>
   m_sub skewed 1 (hav_a skewed 0 0 (latitude (listing_at 0 180 None))
     (longitude (listing_at 0 180 None))) < 0 \<and>
   filter_houses skewed [listing_at 0 0 None, listing_at 0 180 None]
     (no_criteria\<lparr>location := Some (0, 0), distance := Some 50\<rparr>) = Inl ValueError"
proof -
  define L where "L = map (\<lambda>x. listing_at x 0 None) [1, 2, 3, 4, 5, 6, 7, 8, 9, 10, 11, 12]"
  define c where "c = no_criteria\<lparr>location := Some (0, 0), distance := Some 50\<rparr>"
  define far where "far = listing_at 0 180 None"
  define xs where "xs = [listing_at 0 0 None, far]"
  have absent: "location no_criteria = None" "distance no_criteria = None"
    "price_c no_criteria = PyNone" "age_c no_criteria = PyNone" "size_c no_criteria = PyNone"
    "labels_to_exclude no_criteria = None" "labels_to_include no_criteria = None"
    by (simp_all add: no_criteria_def)
  have r: "filter_houses exact L no_criteria = Inr (take 10 L)"
    using filter_houses_first_ten [of exact L no_criteria] absent by blast
  then have "length (take 10 L) \<le> 10"
    using filter_houses_first_ten [of exact L no_criteria "take 10 L"] by blast
  then have len: "length (map (\<lambda>x. listing_at x 0 None) [1 :: real, 2, 3, 4, 5, 6, 7, 8, 9, 10]) \<le> 10"
    by (simp add: L_def)
  have r': "filter_houses exact L no_criteria =
      Inr (map (\<lambda>x. listing_at x 0 None) [1, 2, 3, 4, 5, 6, 7, 8, 9, 10])"
    using r by (simp add: L_def)
  have h: "location c = Some (0, 0)" "distance c = Some 50" "far \<in> set xs"
    by (simp_all add: c_def xs_def no_criteria_def)
  have "m_sub skewed 1 x = 1 - x" for x
    by (simp add: skewed_def exact_def)
  then have neg: "m_sub skewed 1 (hav_a skewed 0 0 (latitude far) (longitude far)) < 0"
    by (simp add: far_def listing_at_def hav_a_skewed hav_a_half_turn)
  have "filter_houses skewed xs c = Inl ValueError"
    using filter_houses_first_ten [of skewed xs c _ 0 0 50 far] h neg by simp
  then show ?thesis
    using absent r' len h neg unfolding L_def c_def xs_def far_def by simp
qed

subsection \<open>The geographic stage and the label stages\<close>

lemma in_radius_True:
  "in_radius m clat clon d h = Inr True \<longleftrightarrow>
     (\<exists>x. haversine m clat clon (latitude h) (longitude h) = Inr x \<and> x \<le> d)"
  by (auto simp: in_radius_Inr)

lemma passes_geo:
  assumes "passes m c h" "location c = Some (clat, clon)" "distance c = Some d" "d \<noteq> 0"
  shows "\<exists>x. haversine m clat clon (latitude h) (longitude h) = Inr x \<and> x \<le> d"
proof -
  have "stage_geo m c [h] = Inr [h]" using assms(1) by (simp add: passes_iff)
  then have "in_radius m clat clon d h = Inr True"
    by (auto simp: stage_geo_active [OF assms(2-4)] split: sum.splits if_splits)
  then show ?thesis by (simp add: in_radius_True)
qed

lemma passes_exclude:
  assumes "passes m c h" "labels_to_exclude c = Some ex" "ex \<noteq> []"
  shows "set ex \<inter> set (get_label h) = {}"
proof -
  have "stage_exclude c [h] = [h]" using assms(1) by (simp add: passes_iff later_stages_iff)
  then show ?thesis using assms(2,3) by (simp add: stage_exclude_def split: if_splits)
qed

lemma passes_include:
  assumes "passes m c h" "labels_to_include c = Some inc" "inc \<noteq> []"
  shows "set inc \<subseteq> set (get_label h)"
proof -
  have "stage_include c [h] = [h]" using assms(1) by (simp add: passes_iff later_stages_iff)
  then show ?thesis using assms(2,3) by (simp add: stage_include_def split: if_splits)
qed

lemma haversine_half_turn_far: "\<not> 6371 * pi \<le> (50 :: real)"
proof -
  have "50 < 6371 * pi" using pi_ge_two by simp
  then show ?thesis by (simp add: not_le)
qed

text \<open>
  Claim C1 as stated fails at radius 0: the centre and the radius are both present, the
  listing lies half-way round the equator from the centre, and it is returned.
\<close>

theorem stage_geo_zero_radius_counterexample:
  "location zero_radius = Some (0, 0) \<and> distance zero_radius = Some 0 \<and>
   filter_houses exact [listing_at 0 180 None] zero_radius = Inr [listing_at 0 180 None] \<and>
   haversine exact 0 0 (latitude (listing_at 0 180 None)) (longitude (listing_at 0 180 None)) =
     Inr (6371 * pi) \<and>
   \<not> 6371 * pi \<le> (0 :: real)"
proof -
  have "\<not> 6371 * pi \<le> (0 :: real)" by (simp add: not_le)
  moreover have "haversine exact 0 0 (latitude (listing_at 0 180 None))
      (longitude (listing_at 0 180 None)) = Inr (6371 * pi)"
    by (simp add: listing_at_def haversine_half_turn)
  ultimately show ?thesis
    by (simp add: example_defs filter_houses_def later_stages_def stage_geo_def stage_cond_def
        stage_exclude_def stage_include_def)
qed

text \<open>
  Claim C1, amended. When the centre is present and the radius is present and not zero,
  the geographic stage, whenever it returns, keeps exactly the listings whose distance to
  the centre is at most the radius, and every listing \<open>filter_houses\<close> returns is within
  the radius; in exact arithmetic the stage always returns. When the centre or the radius
  is absent, or the radius is zero, the stage returns its input.
\<close>

theorem stage_geo_when_truthy:
  "(location c = Some (clat, clon) \<and> distance c = Some d \<and> d \<noteq> 0 \<longrightarrow>
      (stage_geo m c xs = Inr ys \<longrightarrow>
         ys = [h \<leftarrow> xs. \<exists>x. haversine m clat clon (latitude h) (longitude h) = Inr x \<and> x \<le> d]) \<and>
      (filter_houses m L c = Inr res \<longrightarrow>
         (\<forall>h \<in> set res. \<exists>x. haversine m clat clon (latitude h) (longitude h) = Inr x \<and> x \<le> d)) \<and>
      stage_geo exact c xs =
        Inr [h \<leftarrow> xs. \<exists>x. haversine exact clat clon (latitude h) (longitude h) = Inr x \<and> x \<le> d]) \<and>
   (location c = None \<or> distance c = None \<or> distance c = Some 0 \<longrightarrow> stage_geo m c xs = Inr xs)"
proof -
  have a: "ys = [h \<leftarrow> xs. \<exists>x. haversine m clat clon (latitude h) (longitude h) = Inr x \<and> x \<le> d]"
    if "location c = Some (clat, clon)" "distance c = Some d" "d \<noteq> 0" "stage_geo m c xs = Inr ys"
    using that(4) filter_raise_Inr [of "in_radius m clat clon d" xs ys]
    by (simp add: stage_geo_active [OF that(1-3)] in_radius_True)
  have b: "\<exists>x. haversine m clat clon (latitude h) (longitude h) = Inr x \<and> x \<le> d"
    if "location c = Some (clat, clon)" "distance c = Some d" "d \<noteq> 0"
      "filter_houses m L c = Inr res" "h \<in> set res" for h
    using passes_geo [OF in_filter_houses [OF that(4,5)] that(1-3)] .
  have e: "stage_geo exact c xs =
        Inr [h \<leftarrow> xs. \<exists>x. haversine exact clat clon (latitude h) (longitude h) = Inr x \<and> x \<le> d]"
    if "location c = Some (clat, clon)" "distance c = Some d" "d \<noteq> 0"
  proof -
    have "\<forall>h \<in> set xs. \<exists>b. in_radius exact clat clon d h = Inr b"
      by (simp add: in_radius_Inr haversine_exact)
    then show ?thesis
      using filter_raise_returns [of xs "in_radius exact clat clon d"]
      by (simp add: stage_geo_active [OF that] in_radius_True)
  qed
  show ?thesis
    using a b e stage_geo_skip [of c m xs] by blast
qed

theorem stage_geo_when_truthy_witness:
  "location (no_criteria\<lparr>location := Some (0, 0), distance := Some 50\<rparr>) = Some (0, 0) \<and>
   distance (no_criteria\<lparr>location := Some (0, 0), distance := Some 50\<rparr>) = Some 50 \<and>
   (50 :: real) \<noteq> 0 \<and>
   stage_geo exact (no_criteria\<lparr>location := Some (0, 0), distance := Some 50\<rparr>)
     [listing_at 0 180 None, listing_at 0 0 None] = Inr [listing_at 0 0 None] \<and>
   filter_houses exact [listing_at 0 180 None, listing_at 0 0 None]
     (no_criteria\<lparr>location := Some (0, 0), distance := Some 50\<rparr>) = Inr [listing_at 0 0 None] \<and>
   haversine exact 0 0 (latitude (listing_at 0 0 None)) (longitude (listing_at 0 0 None)) = Inr 0 \<and>
   (0 :: real) \<le> 50 \<and>
   distance (no_criteria\<lparr>location := Some (0, 0)\<rparr>) = None \<and>
   stage_geo skewed (no_criteria\<lparr>location := Some (0, 0)\<rparr>)
     [listing_at 0 180 None, listing_at 0 0 None] =
     Inr [listing_at 0 180 None, listing_at 0 0 None]"
proof -
  define c1 where "c1 = no_criteria\<lparr>location := Some (0, 0), distance := Some 50\<rparr>"
  define c2 where "c2 = no_criteria\<lparr>location := Some (0, 0)\<rparr>"
  define near where "near = listing_at 0 0 None"
  define xs where "xs = [listing_at 0 180 None, near]"
  have h1: "location c1 = Some (0, 0)" "distance c1 = Some 50" and h2: "distance c2 = None"
    by (simp_all add: c1_def c2_def no_criteria_def)
  have far: "haversine exact 0 0 (latitude (listing_at 0 180 None)) (longitude (listing_at 0 180 None))
      = Inr (6371 * pi)"
    by (simp add: listing_at_def haversine_half_turn)
  have near: "haversine exact 0 0 (latitude near) (longitude near) = Inr 0"
    by (simp add: near_def listing_at_def haversine_same)
  have A: "location c1 = Some (0, 0) \<and> distance c1 = Some 50 \<and> (50 :: real) \<noteq> 0"
    using h1 by simp
  note T = stage_geo_when_truthy [of c1 0 0 50 exact xs "[near]" xs "[near]",
      THEN conjunct1, THEN mp, OF A]
  have "stage_geo exact c1 xs =
      Inr [h \<leftarrow> xs. \<exists>x. haversine exact 0 0 (latitude h) (longitude h) = Inr x \<and> x \<le> 50]"
    by (rule T [THEN conjunct2, THEN conjunct2])
  then have r1: "stage_geo exact c1 xs = Inr [near]"
    using far near haversine_half_turn_far by (simp add: xs_def)
  then have f1: "filter_houses exact xs c1 = Inr [near]"
    by (simp add: filter_houses_def later_stages_def stage_cond_def stage_exclude_def
        stage_include_def xs_def c1_def no_criteria_def)
  have "\<forall>h \<in> set [near]. \<exists>x. haversine exact 0 0 (latitude h) (longitude h) = Inr x \<and> x \<le> 50"
    by (rule T [THEN conjunct2, THEN conjunct1, THEN mp, OF f1])
  then have le: "(0 :: real) \<le> 50"
    using near by simp
  have B: "location c2 = None \<or> distance c2 = None \<or> distance c2 = Some 0"
    using h2 by simp
  have r2: "stage_geo skewed c2 xs = Inr xs"
    by (rule stage_geo_when_truthy [of c2 0 0 50 skewed xs "[]" "[]" "[]",
          THEN conjunct2, THEN mp, OF B])
  show ?thesis
    using h1 h2 r1 r2 f1 near le unfolding c1_def c2_def xs_def near_def by simp
qed

text \<open>
  Claim C7. With a non-empty \<open>labels_to_exclude\<close>, the exclusion stage keeps exactly the
  listings whose labels are disjoint from it; with a non-empty \<open>labels_to_include\<close>, the
  inclusion stage keeps exactly the listings whose labels contain all of it. Every listing
  \<open>filter_houses\<close> returns satisfies both.
\<close>

theorem label_stages:
  "(labels_to_exclude c = Some ex \<and> ex \<noteq> [] \<longrightarrow>
      stage_exclude c xs = [h \<leftarrow> xs. set (get_label h) \<inter> set ex = {}] \<and>
      (filter_houses m L c = Inr res \<longrightarrow> (\<forall>h \<in> set res. set (get_label h) \<inter> set ex = {}))) \<and>
   (labels_to_include c = Some inc \<and> inc \<noteq> [] \<longrightarrow>
      stage_include c xs = [h \<leftarrow> xs. set inc \<subseteq> set (get_label h)] \<and>
      (filter_houses m L c = Inr res \<longrightarrow> (\<forall>h \<in> set res. set inc \<subseteq> set (get_label h))))"
proof -
  have "set (get_label h) \<inter> set ex = {}"
    if "labels_to_exclude c = Some ex" "ex \<noteq> []" "filter_houses m L c = Inr res" "h \<in> set res" for h
    using passes_exclude [OF in_filter_houses [OF that(3,4)] that(1,2)] by (simp add: Int_commute)
  moreover have "set inc \<subseteq> set (get_label h)"
    if "labels_to_include c = Some inc" "inc \<noteq> []" "filter_houses m L c = Inr res" "h \<in> set res" for h
    using passes_include [OF in_filter_houses [OF that(3,4)] that(1,2)] .
  ultimately show ?thesis
    by (simp add: stage_exclude_def stage_include_def Int_commute)
qed

theorem label_stages_witness:
  "labels_to_exclude (no_criteria\<lparr>labels_to_exclude := Some [''temple'']\<rparr>) = Some [''temple''] \<and>
   [''temple''] \<noteq> [] \<and>
   stage_exclude (no_criteria\<lparr>labels_to_exclude := Some [''temple'']\<rparr>)
     [listing_at 0 0 (Some [''temple'', ''park'']), listing_at 0 0 (Some [''park''])] =
     [listing_at 0 0 (Some [''park''])] \<and>
   filter_houses exact [listing_at 0 0 (Some [''temple'', ''park'']), listing_at 0 0 (Some [''park''])]
     (no_criteria\<lparr>labels_to_exclude := Some [''temple'']\<rparr>) = Inr [listing_at 0 0 (Some [''park''])] \<and>
   set (get_label (listing_at 0 0 (Some [''park'']))) \<inter> set [''temple''] = {} \<and>
   labels_to_include (no_criteria\<lparr>labels_to_include := Some [''hospital'', ''MRT station'']\<rparr>) =
     Some [''hospital'', ''MRT station''] \<and>
   [''hospital'', ''MRT station''] \<noteq> [] \<and>
   stage_include (no_criteria\<lparr>labels_to_include := Some [''hospital'', ''MRT station'']\<rparr>)
     [listing_at 0 0 (Some [''hospital'']), listing_at 0 0 (Some [''MRT station'', ''park'', ''hospital''])] =
     [listing_at 0 0 (Some [''MRT station'', ''park'', ''hospital''])]"
proof -
  define c1 where "c1 = no_criteria\<lparr>labels_to_exclude := Some [''temple'']\<rparr>"
  define c2 where "c2 = no_criteria\<lparr>labels_to_include := Some [''hospital'', ''MRT station'']\<rparr>"
  define xs where "xs = [listing_at 0 0 (Some [''temple'', ''park'']), listing_at 0 0 (Some [''park''])]"
  define ys where "ys = [listing_at 0 0 (Some [''hospital'']),
     listing_at 0 0 (Some [''MRT station'', ''park'', ''hospital''])]"
  define kept where "kept = [listing_at 0 0 (Some [''park''])]"
  have h1: "labels_to_exclude c1 = Some [''temple'']"
    and h2: "labels_to_include c2 = Some [''hospital'', ''MRT station'']"
    by (simp_all add: c1_def c2_def no_criteria_def)
  have A: "labels_to_exclude c1 = Some [''temple''] \<and> [''temple''] \<noteq> []"
    using h1 by simp
  note T = label_stages [of c1 "[''temple'']" xs exact xs kept "[]", THEN conjunct1, THEN mp, OF A]
  have "stage_exclude c1 xs = [h \<leftarrow> xs. set (get_label h) \<inter> set [''temple''] = {}]"
    by (rule T [THEN conjunct1])
  then have r1: "stage_exclude c1 xs = kept"
    by (simp add: xs_def kept_def listing_at_def get_label_def)
  then have f1: "filter_houses exact xs c1 = Inr kept"
    by (simp add: filter_houses_def later_stages_def stage_geo_def stage_cond_def stage_include_def
        xs_def kept_def c1_def no_criteria_def)
  have "\<forall>h \<in> set kept. set (get_label h) \<inter> set [''temple''] = {}"
    by (rule T [THEN conjunct2, THEN mp, OF f1])
  then have d1: "set (get_label (listing_at 0 0 (Some [''park'']))) \<inter> set [''temple''] = {}"
    unfolding kept_def by simp
  have B: "labels_to_include c2 = Some [''hospital'', ''MRT station''] \<and>
      [''hospital'', ''MRT station''] \<noteq> []"
    using h2 by simp
  have "stage_include c2 ys = [h \<leftarrow> ys. set [''hospital'', ''MRT station''] \<subseteq> set (get_label h)]"
    by (rule label_stages [of c2 "[]" ys exact ys "[]" "[''hospital'', ''MRT station'']",
          THEN conjunct2, THEN mp, OF B, THEN conjunct1])
  then have r2: "stage_include c2 ys = [listing_at 0 0 (Some [''MRT station'', ''park'', ''hospital''])]"
    by (simp add: ys_def listing_at_def get_label_def)
  show ?thesis
    using h1 h2 r1 r2 f1 d1 unfolding c1_def c2_def xs_def ys_def kept_def by simp
qed

section \<open>Properties of classification and scoring\<close>

lemma py_or_chain:
  "(case py_or a (py_or b (py_or c d)) of Some (x # xs) \<Rightarrow> acc @ [x # xs] | _ \<Rightarrow> acc) =
   acc @ emit (List.find (\<lambda>v. v \<noteq> [])
     [case a of None \<Rightarrow> [] | Some v \<Rightarrow> v, case b of None \<Rightarrow> [] | Some v \<Rightarrow> v,
      case c of None \<Rightarrow> [] | Some v \<Rightarrow> v, case d of None \<Rightarrow> [] | Some v \<Rightarrow> v])"
  by (simp add: py_or_def emit_def split: option.splits list.splits)

lemma loop_body_spec: "loop_body t acc = acc @ emit (spec_classify t)"
proof -
  have general: "first_nonempty t [''amenity'', ''shop'', ''leisure'', ''highway''] =
      List.find (\<lambda>v. v \<noteq> [])
        [case t ''amenity'' of None \<Rightarrow> [] | Some v \<Rightarrow> v, case t ''shop'' of None \<Rightarrow> [] | Some v \<Rightarrow> v,
         case t ''leisure'' of None \<Rightarrow> [] | Some v \<Rightarrow> v, case t ''highway'' of None \<Rightarrow> [] | Some v \<Rightarrow> v]"
    by (simp add: first_nonempty_def get_or_empty_def)
  show ?thesis
    unfolding loop_body_def spec_classify_def Let_def
    by (simp add: has_marker_def py_or_chain general emit_def)
qed

lemma foldl_loop_body:
  "foldl (\<lambda>acc e. loop_body (element_tags e) acc) acc es =
   acc @ concat (map (\<lambda>e. emit (spec_classify (element_tags e))) es)"
  by (induction es arbitrary: acc) (simp_all add: loop_body_spec)

lemma mrt_example:
  "loop_body [''network'' \<mapsto> [0x53F0, 0x5317, 0x6377, 0x904B], ''railway'' \<mapsto> ascii ''station''] [] =
   [ascii ''mrt_station'']"
  by (simp add: loop_body_def get_or_empty_def mrt_marker_def)

lemma bank_example: "loop_body [''amenity'' \<mapsto> ascii ''bank''] [] = [ascii ''bank'']"
  by (simp add: loop_body_def get_or_empty_def mrt_marker_def tra_marker_long_def tra_marker_short_def
      hsr_marker_long_def hsr_marker_short_def py_or_def ascii_def)

lemma empty_example: "loop_body Map.empty [] = []"
  by (simp add: loop_body_def get_or_empty_def mrt_marker_def tra_marker_long_def tra_marker_short_def
      hsr_marker_long_def hsr_marker_short_def py_or_def)

text \<open>
  Claim C6. The loop body appends to \<open>all_found_tags\<close> what the specification's
  first-match-wins classifier yields for the element: at most one label. The whole loop
  yields these labels in element order. A metro network name with a railway tag gives
  \<open>mrt_station\<close>, the tag \<open>amenity = bank\<close> gives \<open>bank\<close>, and no tags give nothing.
\<close>

theorem loop_body_classifies:
  "loop_body t acc = acc @ (case spec_classify t of None \<Rightarrow> [] | Some c \<Rightarrow> [c]) \<and>
   length (loop_body t acc) \<le> length acc + 1 \<and>
   all_found elements =
     concat (map (\<lambda>e. case spec_classify (element_tags e) of None \<Rightarrow> [] | Some c \<Rightarrow> [c]) elements) \<and>
   loop_body [''network'' \<mapsto> [0x53F0, 0x5317, 0x6377, 0x904B], ''railway'' \<mapsto> ascii ''station''] [] =
     [ascii ''mrt_station''] \<and>
   loop_body [''amenity'' \<mapsto> ascii ''bank''] [] = [ascii ''bank''] \<and>
   loop_body Map.empty [] = []"
proof -
  have "length (loop_body t acc) \<le> length acc + 1"
    by (simp add: loop_body_spec emit_def split: option.splits)
  moreover have "all_found elements =
     concat (map (\<lambda>e. emit (spec_classify (element_tags e))) elements)"
    by (simp add: all_found_def foldl_loop_body)
  ultimately show ?thesis
    using mrt_example bank_example empty_example loop_body_spec [of t acc]
    unfolding emit_def by simp
qed

theorem loop_body_classifies_witness:
  "spec_classify [''operator'' \<mapsto> [0x53F0, 0x9435], ''amenity'' \<mapsto> ascii ''cafe''] = Some (ascii ''tra_station'') \<and>
   loop_body [''operator'' \<mapsto> [0x53F0, 0x9435], ''amenity'' \<mapsto> ascii ''cafe''] [ascii ''bank''] =
     [ascii ''bank'', ascii ''tra_station'']"
proof -
  have s: "spec_classify [''operator'' \<mapsto> [0x53F0, 0x9435], ''amenity'' \<mapsto> ascii ''cafe''] =
      Some (ascii ''tra_station'')"
    by (simp add: spec_classify_def has_marker_def get_or_empty_def mrt_marker_def
        tra_marker_long_def tra_marker_short_def)
  show ?thesis
    using s loop_body_classifies
      [of "[''operator'' \<mapsto> [0x53F0, 0x9435], ''amenity'' \<mapsto> ascii ''cafe'']" "[ascii ''bank'']" "[]"]
    by simp
qed

text \<open>Reading a count back from \<open>Counter\<close>, with the default 0 of \<open>counts.get\<close>.\<close>

lemma counts_get_counter: "counts_get (counter xs) k = int (count_list xs k)"
  by (simp add: counts_get_def counter_def count_list_0_iff)

lemma living_score_spec: "living_score counts = spec_score counts"
  by (simp add: living_score_def spec_score_def spec_rule_def)

lemma str_int_1: "str_int 1 = [49]"
  by (simp add: str_int_def str_nat.simps)

lemma spec_score_example: "spec_score counts_example = 1"
  by (simp add: spec_score_def spec_rule_def counts_get_def counts_example_def ascii_def)

text \<open>
  Claim C2 as stated fails: for two metro stations and no other station the function
  returns a text, the label followed by the digit 1, and not the number 1.
\<close>

theorem check_living_function_updated_counterexample:
  "check_living_function_updated counts_example = PyStr (score_label @ [49]) \<and>
   check_living_function_updated counts_example \<noteq> PyNum 1"
  by (simp add: check_living_function_updated_def living_score_spec spec_score_example str_int_1)

text \<open>
  Claim C2, amended. \<open>check_living_function_updated\<close> returns the text made of the label
  and the decimal digits of the score, where the score is the sum of the three independent
  rules of the specification and lies between 0 and 3.
\<close>

theorem check_living_function_updated_text:
  "check_living_function_updated counts = PyStr (score_label @ str_int (spec_score counts)) \<and>
   living_score counts = spec_score counts \<and>
   0 \<le> spec_score counts \<and> spec_score counts \<le> 3"
  by (simp add: check_living_function_updated_def living_score_spec)
    (simp add: spec_score_def spec_rule_def)

theorem check_living_function_updated_text_witness:
  "check_living_function_updated counts_example = PyStr (score_label @ [49]) \<and>
   living_score counts_example = 1"
  using check_living_function_updated_text [of counts_example]
  by (simp add: spec_score_example str_int_1)

end
